theory Spec2Isabelle
  imports Complex_Main
begin

section \<open>Strings and runes\<close>

text \<open>
  A Go string is read by the client rune by rune (\<^verbatim>\<open>for _, r := range text\<close>) and written
  rune by rune (\<^verbatim>\<open>strings.Builder.WriteRune\<close>), so a string is modelled as the list of its
  runes. A rune is Go's \<^verbatim>\<open>int32\<close> code point; it is an \<open>int\<close> here, negative values included,
  since \<^verbatim>\<open>strconv.ParseInt\<close> can return them.
\<close>

type_synonym rune = int
type_synonym gostring = "rune list"

definition str :: "string \<Rightarrow> gostring" where
  "str s = map of_char s"

definition validRune :: "rune \<Rightarrow> bool" where
  "validRune r = (0 \<le> r \<and> r \<le> 0x10FFFF \<and> \<not> (0xD800 \<le> r \<and> r \<le> 0xDFFF))"

text \<open>\<^verbatim>\<open>utf8.AppendRune\<close> writes U+FFFD for a rune that is no Unicode scalar value.\<close>

definition WriteRune :: "gostring \<Rightarrow> rune \<Rightarrow> gostring" where
  "WriteRune b r = b @ [if validRune r then r else 0xFFFD]"

definition runeLen :: "rune \<Rightarrow> nat" where
  "runeLen r = (if r < 0x80 then 1 else if r < 0x800 then 2 else if r < 0x10000 then 3 else 4)"

text \<open>\<^verbatim>\<open>len(s)\<close> counts the bytes of the UTF-8 encoding.\<close>

definition len :: "gostring \<Rightarrow> nat" where
  "len s = sum_list (map runeLen s)"

section \<open>The incremental field extractor\<close>

datatype error =
    CallbackError nat
  | MissingAPIKey
  | BuildError
  | TransportError
  | ApiError int gostring
  | DecodeError
  | StreamReadError
  | NoChoices
  | Refused
  | EmptyContent

text \<open>
  A callback \<^verbatim>\<open>func(string) error\<close>. \<open>None\<close> is the nil error; any other error value is
  opaque to the client, which only hands it on, and is a number here.
\<close>

type_synonym callback = "gostring \<Rightarrow> nat option"

text \<open>The field \<^verbatim>\<open>mode\<close> only ever holds \<^verbatim>\<open>""\<close>, \<^verbatim>\<open>"key"\<close> or \<^verbatim>\<open>"value"\<close>.\<close>

datatype pmode = ModeNone | ModeKey | ModeValue

text \<open>
  The parser state. \<open>replyCalls\<close> and \<open>emotionCalls\<close> are not fields of the Go struct: they
  record, in order, the arguments with which the two callbacks have been invoked.
\<close>

record jsonStreamParser =
  onReply :: "callback option"
  onEmotion :: "callback option"
  replyBuilder :: gostring
  replyChunk :: gostring
  currentKey :: gostring
  currentValue :: gostring
  currentKeyName :: gostring
  emotion :: gostring
  inString :: bool
  expectValue :: bool
  mode :: pmode
  escape :: bool
  unicodeLeft :: int
  unicodeBuf :: gostring
  replyCalls :: "gostring list"
  emotionCalls :: "gostring list"

definition newJSONStreamParser :: "callback option \<Rightarrow> callback option \<Rightarrow> jsonStreamParser" where
  "newJSONStreamParser onR onE =
     \<lparr>onReply = onR, onEmotion = onE, replyBuilder = [], replyChunk = [], currentKey = [],
      currentValue = [], currentKeyName = [], emotion = [], inString = False,
      expectValue = False, mode = ModeNone, escape = False, unicodeLeft = 0, unicodeBuf = [],
      replyCalls = [], emotionCalls = []\<rparr>"

text \<open>\<^verbatim>\<open>handleRune\<close> returns the nil error on every path, so the model returns the state only.\<close>

definition handleRune :: "jsonStreamParser \<Rightarrow> rune \<Rightarrow> jsonStreamParser" where
  "handleRune p r =
     (if mode p = ModeKey then p\<lparr>currentKey := WriteRune (currentKey p) r\<rparr>
      else if mode p = ModeValue then
        (if currentKeyName p = str ''reply'' then
           p\<lparr>replyBuilder := WriteRune (replyBuilder p) r,
             replyChunk := WriteRune (replyChunk p) r\<rparr>
         else if currentKeyName p = str ''emotion'' \<and> emotion p = [] then
           p\<lparr>currentValue := WriteRune (currentValue p) r\<rparr>
         else p)
      else p)"

text \<open>
  \<^verbatim>\<open>strconv.ParseInt(hexStr, 16, 32)\<close>: an optional sign, then one or more hexadecimal digits.
  The bit size is no restriction on at most four digits.
\<close>

definition hexDigit :: "rune \<Rightarrow> int option" where
  "hexDigit c =
     (if 48 \<le> c \<and> c \<le> 57 then Some (c - 48)
      else if 97 \<le> c \<and> c \<le> 102 then Some (c - 87)
      else if 65 \<le> c \<and> c \<le> 70 then Some (c - 55)
      else None)"

fun parseUintHex :: "gostring \<Rightarrow> int \<Rightarrow> int option" where
  "parseUintHex [] acc = Some acc"
| "parseUintHex (c # cs) acc =
     (case hexDigit c of None \<Rightarrow> None | Some d \<Rightarrow> parseUintHex cs (acc * 16 + d))"

definition ParseIntHex :: "gostring \<Rightarrow> int option" where
  "ParseIntHex s =
     (case s of
        [] \<Rightarrow> None
      | c # cs \<Rightarrow>
          if c = 43 then (if cs = [] then None else parseUintHex cs 0)
          else if c = 45 then (if cs = [] then None else map_option uminus (parseUintHex cs 0))
          else parseUintHex s 0)"

definition decodeUnicode :: "gostring \<Rightarrow> rune \<times> bool" where
  "decodeUnicode hexStr =
     (if len hexStr \<noteq> 4 then (0, False)
      else case ParseIntHex hexStr of None \<Rightarrow> (0, False) | Some v \<Rightarrow> (v, True))"

text \<open>
  The body of the loop of \<^verbatim>\<open>Feed\<close> for one rune. The second component is the error with
  which \<^verbatim>\<open>Feed\<close> returns from inside the loop, if it does. Character codes:
  \<open>34\<close> is the double quote, \<open>92\<close> the backslash, \<open>47\<close> the slash, \<open>44\<close> the comma, and
  \<open>98, 102, 110, 114, 116, 117\<close> are the letters b, f, n, r, t, u.
\<close>

definition feedRune :: "jsonStreamParser \<Rightarrow> rune \<Rightarrow> jsonStreamParser \<times> error option" where
  "feedRune p r =
     (if unicodeLeft p > 0 then
        (let p1 = p\<lparr>unicodeBuf := WriteRune (unicodeBuf p) r, unicodeLeft := unicodeLeft p - 1\<rparr>
         in if unicodeLeft p1 = 0 then
              (let d = decodeUnicode (unicodeBuf p1); p2 = p1\<lparr>unicodeBuf := []\<rparr>
               in if snd d then (handleRune p2 (fst d), None) else (p2, None))
            else (p1, None))
      else if inString p then
        (if escape p then
           (let p1 = p\<lparr>escape := False\<rparr>
            in if r = 34 \<or> r = 92 \<or> r = 47 then (handleRune p1 r, None)
               else if r = 98 then (handleRune p1 8, None)
               else if r = 102 then (handleRune p1 12, None)
               else if r = 110 then (handleRune p1 10, None)
               else if r = 114 then (handleRune p1 13, None)
               else if r = 116 then (handleRune p1 9, None)
               else if r = 117 then (p1\<lparr>unicodeLeft := 4\<rparr>, None)
               else (handleRune p1 r, None))
         else if r = 92 then (p\<lparr>escape := True\<rparr>, None)
         else if r = 34 then
           (let p1 = p\<lparr>inString := False\<rparr>
            in if mode p1 = ModeKey then
                 (p1\<lparr>currentKeyName := currentKey p1, currentKey := [],
                     expectValue := True, mode := ModeNone\<rparr>, None)
               else if mode p1 = ModeValue then
                 (if currentKeyName p1 = str ''emotion'' \<and> emotion p1 = [] then
                    (let p2 = p1\<lparr>emotion := currentValue p1\<rparr>
                     in case onEmotion p2 of
                          None \<Rightarrow>
                            (p2\<lparr>currentValue := [], expectValue := False, mode := ModeNone\<rparr>, None)
                        | Some f \<Rightarrow>
                            (let p3 = p2\<lparr>emotionCalls := emotionCalls p2 @ [emotion p2]\<rparr>
                             in case f (emotion p2) of
                                  Some e \<Rightarrow> (p3, Some (CallbackError e))
                                | None \<Rightarrow>
                                    (p3\<lparr>currentValue := [], expectValue := False,
                                        mode := ModeNone\<rparr>, None)))
                  else (p1\<lparr>currentValue := [], expectValue := False, mode := ModeNone\<rparr>, None))
               else (p1\<lparr>mode := ModeNone\<rparr>, None))
         else (handleRune p r, None))
      else if r = 34 then
        (p\<lparr>inString := True, mode := (if expectValue p then ModeValue else ModeKey)\<rparr>, None)
      else if r = 44 then (p\<lparr>expectValue := False, mode := ModeNone\<rparr>, None)
      else (p, None))"

fun feedLoop :: "jsonStreamParser \<Rightarrow> gostring \<Rightarrow> jsonStreamParser \<times> error option" where
  "feedLoop p [] = (p, None)"
| "feedLoop p (r # rs) =
     (case feedRune p r of
        (p', Some e) \<Rightarrow> (p', Some e)
      | (p', None) \<Rightarrow> feedLoop p' rs)"

text \<open>The end of \<^verbatim>\<open>Feed\<close>: the per-feed delta buffer is handed to the callback and cleared.\<close>

definition flushReply :: "jsonStreamParser \<Rightarrow> jsonStreamParser \<times> error option" where
  "flushReply p =
     (if len (replyChunk p) > 0 then
        (case onReply p of
           None \<Rightarrow> (p\<lparr>replyChunk := []\<rparr>, None)
         | Some f \<Rightarrow>
             (let p1 = p\<lparr>replyCalls := replyCalls p @ [replyChunk p]\<rparr>
              in case f (replyChunk p) of
                   Some e \<Rightarrow> (p1, Some (CallbackError e))
                 | None \<Rightarrow> (p1\<lparr>replyChunk := []\<rparr>, None)))
      else (p, None))"

definition Feed :: "jsonStreamParser \<Rightarrow> gostring \<Rightarrow> jsonStreamParser \<times> error option" where
  "Feed p text =
     (case feedLoop p text of
        (p', Some e) \<Rightarrow> (p', Some e)
      | (p', None) \<Rightarrow> flushReply p')"

text \<open>Successive calls of \<^verbatim>\<open>Feed\<close> on one parser; the caller stops at the first error.\<close>

fun feedAll :: "jsonStreamParser \<Rightarrow> gostring list \<Rightarrow> jsonStreamParser \<times> error option" where
  "feedAll p [] = (p, None)"
| "feedAll p (c # cs) =
     (case Feed p c of
        (p', Some e) \<Rightarrow> (p', Some e)
      | (p', None) \<Rightarrow> feedAll p' cs)"

definition neverFails :: "callback option \<Rightarrow> bool" where
  "neverFails cb = (case cb of None \<Rightarrow> True | Some f \<Rightarrow> (\<forall>s. f s = None))"

section \<open>Functions of the Go library\<close>

text \<open>\<^verbatim>\<open>unicode.IsSpace\<close>: the Latin-1 white space and the code points of \<^verbatim>\<open>White_Space\<close>.\<close>

definition isSpace :: "rune \<Rightarrow> bool" where
  "isSpace r =
     (r = 9 \<or> r = 10 \<or> r = 11 \<or> r = 12 \<or> r = 13 \<or> r = 32 \<or> r = 0x85 \<or> r = 0xA0 \<or>
      r = 0x1680 \<or> (0x2000 \<le> r \<and> r \<le> 0x200A) \<or> r = 0x2028 \<or> r = 0x2029 \<or>
      r = 0x202F \<or> r = 0x205F \<or> r = 0x3000)"

definition TrimSpace :: "gostring \<Rightarrow> gostring" where
  "TrimSpace s = rev (dropWhile isSpace (rev (dropWhile isSpace s)))"

text \<open>
  \<^verbatim>\<open>strings.ToLower\<close> maps \<^verbatim>\<open>unicode.ToLower\<close> over the runes. On ASCII that function is
  written out in the library; above ASCII it reads the Unicode case tables, which are the
  parameter \<open>tbl\<close> here.
\<close>

definition toLowerRune :: "(rune \<Rightarrow> rune) \<Rightarrow> rune \<Rightarrow> rune" where
  "toLowerRune tbl r = (if r \<le> 0x7F then (if 65 \<le> r \<and> r \<le> 90 then r + 32 else r) else tbl r)"

definition ToLower :: "(rune \<Rightarrow> rune) \<Rightarrow> gostring \<Rightarrow> gostring" where
  "ToLower tbl s = map (toLowerRune tbl) s"

definition HasPrefix :: "gostring \<Rightarrow> gostring \<Rightarrow> bool" where
  "HasPrefix s prefix = (take (length prefix) s = prefix)"

definition TrimPrefix :: "gostring \<Rightarrow> gostring \<Rightarrow> gostring" where
  "TrimPrefix s prefix = (if HasPrefix s prefix then drop (length prefix) s else s)"

text \<open>
  \<^verbatim>\<open>strings.Index\<close> and \<^verbatim>\<open>strings.LastIndex\<close>, \<open>-1\<close> when there is no occurrence. Positions
  count runes here and bytes in Go; the client only compares them with each other and
  slices with them at the ASCII characters it searched for.
\<close>

fun Index :: "gostring \<Rightarrow> gostring \<Rightarrow> int" where
  "Index [] sub = (if sub = [] then 0 else - 1)"
| "Index (c # t) sub =
     (if HasPrefix (c # t) sub then 0
      else (let i = Index t sub in if i < 0 then - 1 else i + 1))"

definition LastIndex :: "gostring \<Rightarrow> gostring \<Rightarrow> int" where
  "LastIndex s sub =
     (let i = Index (rev s) (rev sub)
      in if i < 0 then - 1 else int (length s) - int (length sub) - i)"

definition Contains :: "gostring \<Rightarrow> gostring \<Rightarrow> bool" where
  "Contains s sub = (Index s sub \<ge> 0)"

text \<open>The slice \<^verbatim>\<open>s[i:j]\<close>, for \<open>0 \<le> i \<le> j \<le> length s\<close>.\<close>

definition slice :: "gostring \<Rightarrow> int \<Rightarrow> int \<Rightarrow> gostring" where
  "slice s i j = take (nat (j - i)) (drop (nat i) s)"

fun Join :: "gostring list \<Rightarrow> gostring \<Rightarrow> gostring" where
  "Join [] sep = []"
| "Join [x] sep = x"
| "Join (x # y # ys) sep = x @ sep @ Join (y # ys) sep"

section \<open>Emotion normalization\<close>

fun normalizeLoop :: "(rune \<Rightarrow> rune) \<Rightarrow> gostring \<Rightarrow> gostring list \<Rightarrow> gostring" where
  "normalizeLoop tbl emo [] = []"
| "normalizeLoop tbl emo (e # es) =
     (if emo = ToLower tbl (TrimSpace e) then emo else normalizeLoop tbl emo es)"

definition normalizeEmotion :: "(rune \<Rightarrow> rune) \<Rightarrow> gostring \<Rightarrow> gostring list \<Rightarrow> gostring" where
  "normalizeEmotion tbl emo allowed = normalizeLoop tbl (ToLower tbl (TrimSpace emo)) allowed"

fun fallbackEmotion :: "(rune \<Rightarrow> rune) \<Rightarrow> gostring list \<Rightarrow> gostring" where
  "fallbackEmotion tbl [] = str ''neutral''"
| "fallbackEmotion tbl (e # es) =
     (if TrimSpace e \<noteq> [] then ToLower tbl (TrimSpace e) else fallbackEmotion tbl es)"

text \<open>
  The emotion of the final \<^verbatim>\<open>Reply\<close>, as both \<^verbatim>\<open>GenerateReply\<close> and \<^verbatim>\<open>StreamReply\<close> compute
  it in their last lines from the raw provider emotion.
\<close>

definition finalEmotion :: "(rune \<Rightarrow> rune) \<Rightarrow> gostring \<Rightarrow> gostring list \<Rightarrow> gostring" where
  "finalEmotion tbl raw allowed =
     (let e = normalizeEmotion tbl raw allowed
      in if e = [] then fallbackEmotion tbl allowed else e)"

text \<open>
  The two notions of the specification's sentence, word for word: a case-insensitive
  member of the list, and the first non-empty member, lower-cased, or \<^verbatim>\<open>neutral\<close>.
\<close>

definition caseInsensitiveMember :: "(rune \<Rightarrow> rune) \<Rightarrow> gostring \<Rightarrow> gostring list \<Rightarrow> bool" where
  "caseInsensitiveMember tbl x allowed = (\<exists>e \<in> set allowed. ToLower tbl e = ToLower tbl x)"

definition claimedFallback :: "(rune \<Rightarrow> rune) \<Rightarrow> gostring list \<Rightarrow> gostring" where
  "claimedFallback tbl allowed =
     (case filter (\<lambda>e. e \<noteq> []) allowed of [] \<Rightarrow> str ''neutral'' | e # _ \<Rightarrow> ToLower tbl e)"

text \<open>The same two notions on the entries with their surrounding white space removed.\<close>

definition trimmedFallback :: "(rune \<Rightarrow> rune) \<Rightarrow> gostring list \<Rightarrow> gostring" where
  "trimmedFallback tbl allowed =
     (case filter (\<lambda>e. e \<noteq> []) (map TrimSpace allowed) of
        [] \<Rightarrow> str ''neutral''
      | e # _ \<Rightarrow> ToLower tbl e)"

section \<open>The schema builder\<close>

text \<open>
  The values of a \<^verbatim>\<open>map[string]any\<close> that the builder stores. A Go map is an association
  list with distinct keys here; the order of the entries carries no meaning.
\<close>

datatype jany =
    JString gostring
  | JBool bool
  | JStrings "gostring list"
  | JMap "(gostring \<times> jany) list"

record jsonSchema =
  Name :: gostring
  Description :: gostring
  Schema :: "(gostring \<times> jany) list"
  Strict :: bool

record responseFormat =
  Type :: gostring
  JsonSchema :: "jsonSchema option"

record Client =
  baseURL :: gostring
  apiKey :: gostring
  model :: gostring
  temperature :: real
  systemPrompt :: gostring
  promptPath :: gostring
  emotions :: "gostring list"

definition buildEmotionSchema :: "Client \<Rightarrow> (gostring \<times> jany) list" where
  "buildEmotionSchema c =
     (let prop = [(str ''type'', JString (str ''string''))]
      in if length (emotions c) > 0 then prop @ [(str ''enum'', JStrings (emotions c))]
         else prop)"

definition buildStructuredFormat :: "Client \<Rightarrow> responseFormat" where
  "buildStructuredFormat c =
     (let schema =
        [(str ''type'', JString (str ''object'')),
         (str ''additionalProperties'', JBool False),
         (str ''properties'',
            JMap [(str ''reply'', JMap [(str ''type'', JString (str ''string''))]),
                  (str ''emotion'', JMap (buildEmotionSchema c))]),
         (str ''required'', JStrings [str ''reply'', str ''emotion''])]
      in \<lparr>Type = str ''json_schema'',
          JsonSchema = Some
            \<lparr>Name = str ''chat_reply'',
             Description = str ''Structured response for chat reply and emotion.'',
             Schema = schema,
             Strict = True\<rparr>\<rparr>)"

section \<open>Requests, responses and the outside world\<close>

record chatMessage =
  Role :: gostring
  Content :: gostring
  Refusal :: gostring

text \<open>\<^verbatim>\<open>Temperature\<close> is a \<^verbatim>\<open>float64\<close>; the client only stores it, sets it to zero and compares it with zero.\<close>

record chatRequest =
  Model :: gostring
  Messages :: "chatMessage list"
  Temperature :: real
  Stream :: bool
  ResponseFormat :: responseFormat

text \<open>
  The struct \<^verbatim>\<open>aiJSON\<close>, with fields \<^verbatim>\<open>Reply\<close> and \<^verbatim>\<open>Emotion\<close>, and the struct \<^verbatim>\<open>Reply\<close>, with
  fields \<^verbatim>\<open>Text\<close> and \<^verbatim>\<open>Emotion\<close>; the fields of the former carry a prefix here. Of a
  \<^verbatim>\<open>db.ChatMessage\<close> the client reads the role and the content.
\<close>

record aiJSON =
  aiReply :: gostring
  aiEmotion :: gostring

record Reply =
  Text :: gostring
  Emotion :: gostring

record dbChatMessage =
  dbRole :: gostring
  dbContent :: gostring

text \<open>
  A response body is read line by line (\<^verbatim>\<open>bufio.Reader.ReadString\<close>) or as a whole
  (\<^verbatim>\<open>io.ReadAll\<close>): \<open>rlines\<close> are the successive results of \<^verbatim>\<open>ReadString\<close> that end in a
  newline, \<open>rrest\<close> is what follows the last newline, and \<open>rend\<close> says whether the body
  then ends or the read fails.
\<close>

datatype readEnd = EOF | ReadFailure

record reader =
  rlines :: "gostring list"
  rrest :: gostring
  rend :: readEnd

definition ReadAll :: "reader \<Rightarrow> gostring" where
  "ReadAll b = concat (rlines b) @ rrest b"

text \<open>
  The result of \<^verbatim>\<open>httpClient.Do\<close> on a request: \<open>DoError\<close> when the round trip fails, else
  the status code and the body.
\<close>

datatype httpResult = DoError | Response int reader

text \<open>
  What the client takes from its libraries and from the world:
  the Unicode lower-case table above ASCII; \<^verbatim>\<open>json.Unmarshal\<close> into an \<^verbatim>\<open>aiJSON\<close>
  (\<open>None\<close> for an error); \<^verbatim>\<open>json.Unmarshal\<close> of one stream frame, giving the content and
  the refusal of the delta of each choice; the JSON decoding of a buffered response body,
  giving the message of each choice; \<^verbatim>\<open>os.ReadFile\<close>; whether a request can be built for
  a client and a body, that is, whether \<^verbatim>\<open>json.Marshal\<close> and \<^verbatim>\<open>http.NewRequestWithContext\<close>
  both succeed; and the HTTP round trip, which may depend on how many requests the call
  has sent before.
\<close>

record env =
  lowerTable :: "rune \<Rightarrow> rune"
  unmarshalAI :: "gostring \<Rightarrow> aiJSON option"
  unmarshalChunk :: "gostring \<Rightarrow> (gostring \<times> gostring) list option"
  decodeResponse :: "reader \<Rightarrow> chatMessage list option"
  readFile :: "gostring \<Rightarrow> gostring option"
  buildRequest :: "Client \<Rightarrow> chatRequest \<Rightarrow> bool"
  httpDo :: "nat \<Rightarrow> chatRequest \<Rightarrow> httpResult"

section \<open>The transport and the fallback negotiator\<close>

definition shouldFallbackToJSONMode :: "(rune \<Rightarrow> rune) \<Rightarrow> int \<Rightarrow> gostring \<Rightarrow> bool" where
  "shouldFallbackToJSONMode tbl status body =
     (if status \<noteq> 400 then False
      else (let lowered = ToLower tbl body
            in Contains lowered (str ''response_format'') \<or>
               Contains lowered (str ''json_schema'') \<or>
               Contains lowered (str ''structured outputs'') \<or>
               Contains lowered (str ''not supported'')))"

definition shouldRetryWithoutTemperature :: "(rune \<Rightarrow> rune) \<Rightarrow> int \<Rightarrow> gostring \<Rightarrow> bool" where
  "shouldRetryWithoutTemperature tbl status body =
     (if status \<noteq> 400 then False
      else (let lowered = ToLower tbl body
            in Contains lowered (str ''temperature'') \<and>
               (Contains lowered (str ''unsupported'') \<or>
                Contains lowered (str ''unsupported_value''))))"

text \<open>
  The two transport methods. Each takes and returns the list of the requests that the call
  has sent so far; with no API key, or when the request cannot be built, nothing is sent.
\<close>

definition doChatRequest ::
  "env \<Rightarrow> Client \<Rightarrow> chatRequest list \<Rightarrow> chatRequest \<Rightarrow>
   (error + chatMessage list) \<times> chatRequest list" where
  "doChatRequest ev c sent reqBody =
     (if apiKey c = [] then (Inl MissingAPIKey, sent)
      else if \<not> buildRequest ev c reqBody then (Inl BuildError, sent)
      else (case httpDo ev (length sent) reqBody of
              DoError \<Rightarrow> (Inl TransportError, sent @ [reqBody])
            | Response status body \<Rightarrow>
                if status \<ge> 400
                then (Inl (ApiError status (TrimSpace (ReadAll body))), sent @ [reqBody])
                else (case decodeResponse ev body of
                        None \<Rightarrow> (Inl DecodeError, sent @ [reqBody])
                      | Some parsed \<Rightarrow> (Inr parsed, sent @ [reqBody]))))"

definition doChatStreamRequest ::
  "env \<Rightarrow> Client \<Rightarrow> chatRequest list \<Rightarrow> chatRequest \<Rightarrow>
   (error + reader) \<times> chatRequest list" where
  "doChatStreamRequest ev c sent reqBody =
     (if apiKey c = [] then (Inl MissingAPIKey, sent)
      else if \<not> buildRequest ev c reqBody then (Inl BuildError, sent)
      else (case httpDo ev (length sent) reqBody of
              DoError \<Rightarrow> (Inl TransportError, sent @ [reqBody])
            | Response status body \<Rightarrow>
                if status \<ge> 400
                then (Inl (ApiError status (TrimSpace (ReadAll body))), sent @ [reqBody])
                else (Inr body, sent @ [reqBody])))"

text \<open>\<^verbatim>\<open>errors.As(err, &apiErr)\<close> followed by one of the two tests on the status and the body.\<close>

definition retryWithoutTemperature :: "env \<Rightarrow> error \<Rightarrow> bool" where
  "retryWithoutTemperature ev e =
     (case e of
        ApiError status body \<Rightarrow> shouldRetryWithoutTemperature (lowerTable ev) status body
      | _ \<Rightarrow> False)"

definition fallbackToJSONMode :: "env \<Rightarrow> error \<Rightarrow> bool" where
  "fallbackToJSONMode ev e =
     (case e of
        ApiError status body \<Rightarrow> shouldFallbackToJSONMode (lowerTable ev) status body
      | _ \<Rightarrow> False)"

definition jsonObjectFormat :: responseFormat where
  "jsonObjectFormat = \<lparr>Type = str ''json_object'', JsonSchema = None\<rparr>"

text \<open>
  The chain of conditional retries. The source has it twice, letter for letter but for the
  transport method called: in \<^verbatim>\<open>GenerateReply\<close> with \<^verbatim>\<open>doChatRequest\<close> and in
  \<^verbatim>\<open>doChatStreamRequestWithFallback\<close> with \<^verbatim>\<open>doChatStreamRequest\<close>; the method is the
  parameter \<open>doReq\<close>. Each of the three steps runs only while the last attempt has failed.
\<close>

definition fallbackChain ::
  "env \<Rightarrow> (chatRequest list \<Rightarrow> chatRequest \<Rightarrow> (error + 'a) \<times> chatRequest list) \<Rightarrow>
   chatRequest \<Rightarrow> (error + 'a) \<times> chatRequest list" where
  "fallbackChain ev doReq reqBody =
     (case doReq [] reqBody of
        (Inr v, sent1) \<Rightarrow> (Inr v, sent1)
      | (Inl e1, sent1) \<Rightarrow>
          (let (req2, res2, sent2) =
                 (if retryWithoutTemperature ev e1
                  then (let rq = reqBody\<lparr>Temperature := 0\<rparr>
                        in case doReq sent1 rq of (r, s) \<Rightarrow> (rq, r, s))
                  else (reqBody, Inl e1, sent1));
               (req3, res3, sent3) =
                 (case res2 of
                    Inr v \<Rightarrow> (req2, res2, sent2)
                  | Inl e2 \<Rightarrow>
                      if fallbackToJSONMode ev e2
                      then (let rq = req2\<lparr>ResponseFormat := jsonObjectFormat\<rparr>
                            in case doReq sent2 rq of (r, s) \<Rightarrow> (rq, r, s))
                      else (req2, res2, sent2));
               (req4, res4, sent4) =
                 (case res3 of
                    Inr v \<Rightarrow> (req3, res3, sent3)
                  | Inl e3 \<Rightarrow>
                      if retryWithoutTemperature ev e3 \<and> Temperature req3 \<noteq> 0
                      then (let rq = req3\<lparr>Temperature := 0\<rparr>
                            in case doReq sent3 rq of (r, s) \<Rightarrow> (rq, r, s))
                      else (req3, res3, sent3))
           in (res4, sent4)))"

definition doChatStreamRequestWithFallback ::
  "env \<Rightarrow> Client \<Rightarrow> chatRequest \<Rightarrow> (error + reader) \<times> chatRequest list" where
  "doChatStreamRequestWithFallback ev c reqBody =
     fallbackChain ev (doChatStreamRequest ev c) reqBody"

section \<open>The reply orchestrator\<close>

definition loadPromptFromFile :: "env \<Rightarrow> Client \<Rightarrow> gostring" where
  "loadPromptFromFile ev c =
     (let path = TrimSpace (promptPath c)
      in if path = [] then []
         else (case readFile ev path of None \<Rightarrow> [] | Some data \<Rightarrow> TrimSpace data))"

text \<open>The loop over the history: for each message in order, append it or skip it.\<close>

fun historyMessages :: "dbChatMessage list \<Rightarrow> chatMessage list" where
  "historyMessages [] = []"
| "historyMessages (msg # rest) =
     (if dbRole msg = str ''user'' \<or> dbRole msg = str ''assistant''
      then \<lparr>Role = dbRole msg, Content = dbContent msg, Refusal = []\<rparr> # historyMessages rest
      else historyMessages rest)"

definition systemMessage :: "env \<Rightarrow> Client \<Rightarrow> chatMessage" where
  "systemMessage ev c =
     (let emotionList = Join (emotions c) (str '', '');
          formatInstruction =
            str ''Respond ONLY with valid JSON and no extra text. The JSON must have keys 'emotion' and 'reply' in that order. 'emotion' must be one of: ''
            @ emotionList @ str ''.'';
          prompt = loadPromptFromFile ev c;
          sysPrompt = (if prompt \<noteq> [] then prompt else TrimSpace (systemPrompt c))
      in \<lparr>Role = str ''system'',
          Content = TrimSpace (sysPrompt @ [10, 10] @ formatInstruction),
          Refusal = []\<rparr>)"

text \<open>The first lines of both \<^verbatim>\<open>GenerateReply\<close> and \<^verbatim>\<open>StreamReply\<close>.\<close>

definition buildMessages :: "env \<Rightarrow> Client \<Rightarrow> dbChatMessage list \<Rightarrow> chatMessage list" where
  "buildMessages ev c history = systemMessage ev c # historyMessages history"

text \<open>
  The request body that both functions build next; they differ in the \<^verbatim>\<open>Stream\<close> flag.
\<close>

definition newRequest :: "env \<Rightarrow> Client \<Rightarrow> dbChatMessage list \<Rightarrow> bool \<Rightarrow> chatRequest" where
  "newRequest ev c history streaming =
     \<lparr>Model = model c, Messages = buildMessages ev c history, Temperature = temperature c,
      Stream = streaming, ResponseFormat = buildStructuredFormat c\<rparr>"

text \<open>
  \<^verbatim>\<open>parseAIJSON\<close>. The second \<^verbatim>\<open>Unmarshal\<close> decodes into the variable that the first one
  failed on; it is modelled as decoding into a zero value.
\<close>

definition parseAIJSON :: "env \<Rightarrow> gostring \<Rightarrow> aiJSON \<times> bool" where
  "parseAIJSON ev content =
     (case unmarshalAI ev content of
        Some parsed \<Rightarrow> (parsed, True)
      | None \<Rightarrow>
          (let start = Index content (str ''{'');
               end = LastIndex content (str ''}'')
           in if start = - 1 \<or> end = - 1 \<or> end \<le> start
              then (\<lparr>aiReply = [], aiEmotion = []\<rparr>, False)
              else (case unmarshalAI ev (slice content start (end + 1)) of
                      None \<Rightarrow> (\<lparr>aiReply = [], aiEmotion = []\<rparr>, False)
                    | Some parsed \<Rightarrow> (parsed, True))))"

text \<open>\<^verbatim>\<open>GenerateReply\<close>: the result and the requests sent.\<close>

definition GenerateReply ::
  "env \<Rightarrow> Client \<Rightarrow> dbChatMessage list \<Rightarrow> (error + Reply) \<times> chatRequest list" where
  "GenerateReply ev c history =
     (let reqBody = newRequest ev c history False
      in case fallbackChain ev (doChatRequest ev c) reqBody of
           (Inl e, sent) \<Rightarrow> (Inl e, sent)
         | (Inr choices, sent) \<Rightarrow>
             (case choices of
                [] \<Rightarrow> (Inl NoChoices, sent)
              | m # _ \<Rightarrow>
                  (let content = TrimSpace (Content m)
                   in if content = [] then
                        (if TrimSpace (Refusal m) \<noteq> [] then (Inl Refused, sent)
                         else (Inl EmptyContent, sent))
                      else (let (aiPayload, ok) = parseAIJSON ev content
                            in if \<not> ok \<or> aiReply aiPayload = [] then
                                 (Inr \<lparr>Text = content,
                                       Emotion = fallbackEmotion (lowerTable ev) (emotions c)\<rparr>,
                                  sent)
                               else
                                 (Inr \<lparr>Text = TrimSpace (aiReply aiPayload),
                                       Emotion = finalEmotion (lowerTable ev)
                                         (aiEmotion aiPayload) (emotions c)\<rparr>,
                                  sent)))))"

definition SetEmotion :: "jsonStreamParser \<Rightarrow> gostring \<Rightarrow> jsonStreamParser" where
  "SetEmotion p emo =
     (if emotion p \<noteq> [] then p
      else (let p1 = p\<lparr>emotion := emo\<rparr>
            in if onEmotion p1 \<noteq> None \<and> emo \<noteq> []
               then p1\<lparr>emotionCalls := emotionCalls p1 @ [emo]\<rparr>
               else p1))"

text \<open>The state of the read loop of \<^verbatim>\<open>StreamReply\<close>.\<close>

record streamState =
  parser :: jsonStreamParser
  rawBuilder :: gostring
  refusalBuilder :: gostring

text \<open>The inner loop, over the choices of one frame.\<close>

fun feedChoices ::
  "streamState \<Rightarrow> (gostring \<times> gostring) list \<Rightarrow> streamState \<times> error option" where
  "feedChoices st [] = (st, None)"
| "feedChoices st ((content, refusal) # rest) =
     (case (if content \<noteq> []
            then (case Feed (parser st) content of
                    (p', err) \<Rightarrow> (st\<lparr>rawBuilder := rawBuilder st @ content, parser := p'\<rparr>, err))
            else (st, None)) of
        (st1, Some e) \<Rightarrow> (st1, Some e)
      | (st1, None) \<Rightarrow>
          feedChoices
            (if refusal \<noteq> [] then st1\<lparr>refusalBuilder := refusalBuilder st1 @ refusal\<rparr> else st1)
            rest)"

text \<open>
  The read loop. It ends without error at the end of the body or at the frame
  \<^verbatim>\<open>[DONE]\<close>, and with an error when a read fails or a callback returns one.
\<close>

fun streamLoop ::
  "env \<Rightarrow> streamState \<Rightarrow> gostring list \<Rightarrow> readEnd \<Rightarrow> streamState \<times> error option" where
  "streamLoop ev st [] EOF = (st, None)"
| "streamLoop ev st [] ReadFailure = (st, Some StreamReadError)"
| "streamLoop ev st (l # ls) fin =
     (let line = TrimSpace l
      in if line = [] then streamLoop ev st ls fin
         else if \<not> HasPrefix line (str ''data:'') then streamLoop ev st ls fin
         else (let data = TrimSpace (TrimPrefix line (str ''data:''))
               in if data = str ''[DONE]'' then (st, None)
                  else (case unmarshalChunk ev data of
                          None \<Rightarrow> streamLoop ev st ls fin
                        | Some choices \<Rightarrow>
                            (case feedChoices st choices of
                               (st', Some e) \<Rightarrow> (st', Some e)
                             | (st', None) \<Rightarrow> streamLoop ev st' ls fin))))"

text \<open>
  What \<^verbatim>\<open>StreamReply\<close> leaves behind: its result, the parser with the log of the callback
  invocations, the concatenated raw stream, the result of the call of \<^verbatim>\<open>parseAIJSON\<close> on
  the raw stream if that call is made, and the requests sent.
\<close>

record streamOutcome =
  result :: "error + Reply"
  finalParser :: jsonStreamParser
  rawStream :: gostring
  reparse :: "(aiJSON \<times> bool) option"
  requests :: "chatRequest list"

text \<open>The lines of \<^verbatim>\<open>StreamReply\<close> after the read loop.\<close>

definition finishStream ::
  "env \<Rightarrow> Client \<Rightarrow> streamState \<Rightarrow> chatRequest list \<Rightarrow> streamOutcome" where
  "finishStream ev c st sent =
     (let content0 = TrimSpace (replyBuilder (parser st));
          rawContent = TrimSpace (rawBuilder st);
          rp = (if content0 = [] \<and> rawContent \<noteq> [] then Some (parseAIJSON ev rawContent)
                else None);
          (content, p) =
            (case rp of
               None \<Rightarrow> (content0, parser st)
             | Some (parsed, ok) \<Rightarrow>
                 if ok \<and> aiReply parsed \<noteq> [] then
                   (TrimSpace (aiReply parsed),
                    if emotion (parser st) = [] then SetEmotion (parser st) (aiEmotion parsed)
                    else parser st)
                 else (content0, parser st))
      in if content = [] then
           \<lparr>result = (if TrimSpace (refusalBuilder st) \<noteq> [] then Inl Refused
                       else Inl EmptyContent),
            finalParser = p, rawStream = rawBuilder st, reparse = rp, requests = sent\<rparr>
         else
           \<lparr>result = Inr \<lparr>Text = TrimSpace content,
                           Emotion = finalEmotion (lowerTable ev) (emotion p) (emotions c)\<rparr>,
            finalParser = p, rawStream = rawBuilder st, reparse = rp, requests = sent\<rparr>)"

definition StreamReply ::
  "env \<Rightarrow> Client \<Rightarrow> dbChatMessage list \<Rightarrow> callback option \<Rightarrow> callback option \<Rightarrow>
   streamOutcome" where
  "StreamReply ev c history onChunk onEmo =
     (let reqBody = newRequest ev c history True;
          fresh = newJSONStreamParser onChunk onEmo
      in case doChatStreamRequestWithFallback ev c reqBody of
           (Inl e, sent) \<Rightarrow>
             \<lparr>result = Inl e, finalParser = fresh, rawStream = [], reparse = None,
              requests = sent\<rparr>
         | (Inr body, sent) \<Rightarrow>
             (case streamLoop ev \<lparr>parser = fresh, rawBuilder = [], refusalBuilder = []\<rparr>
                     (rlines body) (rend body) of
                (st, Some e) \<Rightarrow>
                  \<lparr>result = Inl e, finalParser = parser st, rawStream = rawBuilder st,
                   reparse = None, requests = sent\<rparr>
              | (st, None) \<Rightarrow> finishStream ev c st sent))"

section \<open>Auxiliary notions for the extractor proofs\<close>

text \<open>
  The state after one rune and after the final flush, without the error flag; the parser
  with the per-feed buffer and the callback log blanked; and the invariant that the
  callback has received all of the decoded reply but the pending buffer.
\<close>

definition stepP :: "jsonStreamParser \<Rightarrow> rune \<Rightarrow> jsonStreamParser" where
  "stepP p r = fst (feedRune p r)"

definition forget :: "jsonStreamParser \<Rightarrow> jsonStreamParser" where
  "forget p = p\<lparr>replyChunk := [], replyCalls := []\<rparr>"

definition flushP :: "jsonStreamParser \<Rightarrow> jsonStreamParser" where
  "flushP p = fst (flushReply p)"

definition delivered_ok :: "jsonStreamParser \<Rightarrow> bool" where
  "delivered_ok p = (concat (replyCalls p) @ replyChunk p = replyBuilder p)"

section \<open>Auxiliary notions for the negotiator and the orchestrator\<close>

text \<open>
  The two downgrades; the lists of requests that a call can send, in order; a transport
  whose every answer is an HTTP 400 carrying the temperature marker and none of the
  structured-output markers; and a small concrete world for the examples, whose transport
  answers every request with status 400 and a given body, and a client.
\<close>

definition withoutTemperature :: "chatRequest \<Rightarrow> chatRequest" where
  "withoutTemperature rq = rq\<lparr>Temperature := 0\<rparr>"

definition inJSONMode :: "chatRequest \<Rightarrow> chatRequest" where
  "inJSONMode rq = rq\<lparr>ResponseFormat := jsonObjectFormat\<rparr>"

definition escalations :: "chatRequest \<Rightarrow> chatRequest list list" where
  "escalations rq =
     [[], [rq], [rq, withoutTemperature rq], [rq, inJSONMode rq],
      [rq, withoutTemperature rq, inJSONMode (withoutTemperature rq)],
      [rq, inJSONMode rq, withoutTemperature (inJSONMode rq)]]"

definition temperatureErrorsOnly :: "env \<Rightarrow> bool" where
  "temperatureErrorsOnly ev =
     (\<forall>n rq. case httpDo ev n rq of
                DoError \<Rightarrow> False
              | Response status body \<Rightarrow>
                  status = 400 \<and>
                  shouldRetryWithoutTemperature (lowerTable ev) status (TrimSpace (ReadAll body)) \<and>
                  \<not> shouldFallbackToJSONMode (lowerTable ev) status (TrimSpace (ReadAll body)))"

text \<open>
  A transport method either sends the request, or sends nothing and returns an error that
  starts no retry.
\<close>

definition sendsOrStops ::
  "env \<Rightarrow> (chatRequest list \<Rightarrow> chatRequest \<Rightarrow> (error + 'a) \<times> chatRequest list) \<Rightarrow> bool" where
  "sendsOrStops ev doReq =
     (\<forall>sent rq. snd (doReq sent rq) = sent @ [rq] \<or>
        (\<exists>e. doReq sent rq = (Inl e, sent) \<and> \<not> retryWithoutTemperature ev e \<and>
             \<not> fallbackToJSONMode ev e))"

definition env0 :: "gostring \<Rightarrow> env" where
  "env0 errBody =
     \<lparr>lowerTable = (\<lambda>r. r), unmarshalAI = (\<lambda>_. None), unmarshalChunk = (\<lambda>_. None),
      decodeResponse = (\<lambda>_. None), readFile = (\<lambda>_. None),
      buildRequest = (\<lambda>_ _. True),
      httpDo = (\<lambda>_ _. Response 400 \<lparr>rlines = [], rrest = errBody, rend = EOF\<rparr>)\<rparr>"

definition client0 :: Client where
  "client0 = \<lparr>baseURL = str ''https://api.openai.com/v1'', apiKey = str ''k'', model = str ''m'',
     temperature = 1, systemPrompt = str ''Be kind.'', promptPath = [],
     emotions = [str ''neutral'', str ''happy'']\<rparr>"

text \<open>
  A world for the buffered examples: every request is answered with status 200 and one
  choice whose message has the given content and refusal; \<open>ai\<close> stands for
  \<^verbatim>\<open>json.Unmarshal\<close> into an \<^verbatim>\<open>aiJSON\<close>.
\<close>

definition bufferedEnv :: "gostring \<Rightarrow> gostring \<Rightarrow> (gostring \<Rightarrow> aiJSON option) \<Rightarrow> env" where
  "bufferedEnv content refusal ai =
     \<lparr>lowerTable = (\<lambda>r. r), unmarshalAI = ai, unmarshalChunk = (\<lambda>_. None),
      decodeResponse =
        (\<lambda>_. Some [\<lparr>Role = str ''assistant'', Content = content, Refusal = refusal\<rparr>]),
      readFile = (\<lambda>_. None),
      buildRequest = (\<lambda>_ _. True),
      httpDo = (\<lambda>_ _. Response 200 \<lparr>rlines = [], rrest = [], rend = EOF\<rparr>)\<rparr>"

text \<open>
  The read loop of \<^verbatim>\<open>StreamReply\<close> on a response body, started as \<^verbatim>\<open>StreamReply\<close> starts
  it; and the invariant of the loop when a pass-through callback is installed.
\<close>

definition runStream :: "env \<Rightarrow> callback option \<Rightarrow> callback option \<Rightarrow> reader \<Rightarrow> streamState \<times> error option" where
  "runStream ev oc oe body =
     streamLoop ev \<lparr>parser = newJSONStreamParser oc oe, rawBuilder = [], refusalBuilder = []\<rparr>
       (rlines body) (rend body)"

definition streamInv :: "streamState \<Rightarrow> bool" where
  "streamInv st =
     (delivered_ok (parser st) \<and> replyChunk (parser st) = [] \<and> onReply (parser st) \<noteq> None)"

text \<open>
  A world for the streaming examples: every request is answered with status 200 and a body
  of one frame per given content delta, then the frame \<^verbatim>\<open>[DONE]\<close>. The frame of a delta is
  the JSON text that carries it, and the frames decode to their deltas.
\<close>

definition jsonQuote :: "gostring \<Rightarrow> gostring" where
  "jsonQuote s = concat (map (\<lambda>r. if r = 34 \<or> r = 92 then [92, r] else [r]) s)"

definition sseFrame :: "gostring \<Rightarrow> gostring" where
  \<open>sseFrame content = str ''{"choices":[{"delta":{"content":"'' @ jsonQuote content @ str ''"}}]}''\<close>

definition streamBody :: "gostring list \<Rightarrow> reader" where
  "streamBody contents =
     \<lparr>rlines = map (\<lambda>c. str ''data: '' @ sseFrame c @ [10]) contents @ [str ''data: [DONE]'' @ [10]],
      rrest = [], rend = EOF\<rparr>"

definition streamEnv :: "gostring list \<Rightarrow> (gostring \<Rightarrow> aiJSON option) \<Rightarrow> env" where
  "streamEnv contents ai =
     \<lparr>lowerTable = (\<lambda>r. r), unmarshalAI = ai,
      unmarshalChunk = map_of (map (\<lambda>c. (sseFrame c, [(c, [])])) contents),
      decodeResponse = (\<lambda>_. None), readFile = (\<lambda>_. None),
      buildRequest = (\<lambda>_ _. True),
      httpDo = (\<lambda>_ _. Response 200 (streamBody contents))\<rparr>"

section \<open>Flat JSON object texts\<close>

text \<open>
  The texts that the extractor is specified on, as syntax trees with their rendering: a
  string is a list of characters, each written plainly, as a two-character escape or as a
  \<^verbatim>\<open>\u\<close> escape of four hexadecimal digits; a value is a string or a scalar (a number,
  \<^verbatim>\<open>true\<close>, \<^verbatim>\<open>false\<close>, \<^verbatim>\<open>null\<close>); a member is a key, a colon and a value, with white space
  around them; an object is a brace, members separated by commas, and a brace. Every
  well-formed flat JSON object text is \<open>renderObject obj\<close> for an \<open>obj\<close> with \<open>wfObject obj\<close>.
  \<open>charValue\<close> is the code point that a character denotes, \<open>deliveredString\<close> decodes a
  string character by character, a surrogate code point becoming U+FFFD, and
  \<open>jsonStringValue\<close> is the decoded value of a string in JSON, where a surrogate pair of
  two escapes denotes one code point.
\<close>

datatype jchar = Plain rune | Esc rune | UEsc rune rune rune rune

datatype jvalue = VString "jchar list" | VOther gostring

record jmember =
  lead :: gostring
  mkey :: "jchar list"
  preColon :: gostring
  postColon :: gostring
  mval :: jvalue
  trail :: gostring

record jobject =
  before :: gostring
  inner :: gostring
  members :: "jmember list"
  after :: gostring

definition renderChar :: "jchar \<Rightarrow> gostring" where
  "renderChar x = (case x of Plain r \<Rightarrow> [r] | Esc c \<Rightarrow> [92, c] | UEsc a b c d \<Rightarrow> [92, 117, a, b, c, d])"

definition renderString :: "jchar list \<Rightarrow> gostring" where
  "renderString s = [34] @ concat (map renderChar s) @ [34]"

definition renderValue :: "jvalue \<Rightarrow> gostring" where
  "renderValue v = (case v of VString s \<Rightarrow> renderString s | VOther t \<Rightarrow> t)"

definition renderMember :: "jmember \<Rightarrow> gostring" where
  "renderMember m =
     lead m @ renderString (mkey m) @ preColon m @ [58] @ postColon m @ renderValue (mval m) @ trail m"

fun renderMembers :: "jmember list \<Rightarrow> gostring" where
  "renderMembers [] = []"
| "renderMembers [m] = renderMember m"
| "renderMembers (m # n # ms) = renderMember m @ [44] @ renderMembers (n # ms)"

definition renderObject :: "jobject \<Rightarrow> gostring" where
  "renderObject obj =
     before obj @ [123] @
     (if members obj = [] then inner obj else renderMembers (members obj)) @
     [125] @ after obj"

definition isWs :: "rune \<Rightarrow> bool" where
  "isWs r = (r = 32 \<or> r = 9 \<or> r = 10 \<or> r = 13)"

definition isHex :: "rune \<Rightarrow> bool" where
  "isHex c = ((48 \<le> c \<and> c \<le> 57) \<or> (97 \<le> c \<and> c \<le> 102) \<or> (65 \<le> c \<and> c \<le> 70))"

definition wfChar :: "jchar \<Rightarrow> bool" where
  "wfChar x =
     (case x of
        Plain r \<Rightarrow> 32 \<le> r \<and> r \<noteq> 34 \<and> r \<noteq> 92 \<and> validRune r
      | Esc c \<Rightarrow> c = 34 \<or> c = 92 \<or> c = 47 \<or> c = 98 \<or> c = 102 \<or> c = 110 \<or> c = 114 \<or> c = 116
      | UEsc a b c d \<Rightarrow> isHex a \<and> isHex b \<and> isHex c \<and> isHex d)"

definition scalarChar :: "rune \<Rightarrow> bool" where
  "scalarChar c =
     ((48 \<le> c \<and> c \<le> 57) \<or> c = 43 \<or> c = 45 \<or> c = 46 \<or> c = 69 \<or> (97 \<le> c \<and> c \<le> 122))"

definition wfValue :: "jvalue \<Rightarrow> bool" where
  "wfValue v =
     (case v of VString s \<Rightarrow> list_all wfChar s | VOther t \<Rightarrow> t \<noteq> [] \<and> list_all scalarChar t)"

definition wfMember :: "jmember \<Rightarrow> bool" where
  "wfMember m =
     (list_all isWs (lead m) \<and> list_all wfChar (mkey m) \<and> list_all isWs (preColon m) \<and>
      list_all isWs (postColon m) \<and> wfValue (mval m) \<and> list_all isWs (trail m))"

definition wfObject :: "jobject \<Rightarrow> bool" where
  "wfObject obj =
     (list_all isWs (before obj) \<and> list_all isWs (inner obj) \<and>
      list_all wfMember (members obj) \<and> list_all isWs (after obj))"

definition hexVal :: "rune \<Rightarrow> int" where
  "hexVal c = (if c \<le> 57 then c - 48 else if c \<le> 70 then c - 55 else c - 87)"

definition charValue :: "jchar \<Rightarrow> rune" where
  "charValue x =
     (case x of
        Plain r \<Rightarrow> r
      | Esc c \<Rightarrow> (if c = 98 then 8 else if c = 102 then 12 else if c = 110 then 10
                  else if c = 114 then 13 else if c = 116 then 9 else c)
      | UEsc a b c d \<Rightarrow> ((hexVal a * 16 + hexVal b) * 16 + hexVal c) * 16 + hexVal d)"

definition written :: "rune \<Rightarrow> rune" where
  "written r = (if validRune r then r else 0xFFFD)"

definition deliveredString :: "jchar list \<Rightarrow> gostring" where
  "deliveredString s = map (written \<circ> charValue) s"

definition contribution :: "jmember \<Rightarrow> gostring" where
  "contribution m =
     (case mval m of
        VString s \<Rightarrow> if deliveredString (mkey m) = str ''reply'' then deliveredString s else []
      | VOther t \<Rightarrow> [])"

fun jsonStringValue :: "jchar list \<Rightarrow> gostring" where
  "jsonStringValue [] = []"
| "jsonStringValue (UEsc a b c d # UEsc e f g h # rest) =
     (if 0xD800 \<le> charValue (UEsc a b c d) \<and> charValue (UEsc a b c d) \<le> 0xDBFF \<and>
         0xDC00 \<le> charValue (UEsc e f g h) \<and> charValue (UEsc e f g h) \<le> 0xDFFF
      then (0x10000 + (charValue (UEsc a b c d) - 0xD800) * 0x400 +
              (charValue (UEsc e f g h) - 0xDC00)) # jsonStringValue rest
      else written (charValue (UEsc a b c d)) # jsonStringValue (UEsc e f g h # rest))"
| "jsonStringValue (x # rest) = written (charValue x) # jsonStringValue rest"

definition plainEscapes :: "jchar list \<Rightarrow> bool" where
  "plainEscapes s = list_all (\<lambda>x. validRune (charValue x)) s"

definition noSurrogates :: "jobject \<Rightarrow> bool" where
  "noSurrogates obj =
     list_all (\<lambda>m. plainEscapes (mkey m) \<and>
                   (case mval m of VString s \<Rightarrow> plainEscapes s | VOther t \<Rightarrow> True))
       (members obj)"

definition replyFields :: "jobject \<Rightarrow> jvalue list" where
  "replyFields obj =
     concat (map (\<lambda>m. if jsonStringValue (mkey m) = str ''reply'' then [mval m] else [])
       (members obj))"

definition plainMember :: "string \<Rightarrow> jvalue \<Rightarrow> jmember" where
  "plainMember k v =
     \<lparr>lead = [], mkey = map Plain (str k), preColon = [], postColon = [], mval = v, trail = []\<rparr>"

definition objectOf :: "jmember list \<Rightarrow> jobject" where
  "objectOf ms = \<lparr>before = [], inner = [], members = ms, after = []\<rparr>"

text \<open>
  The parser between tokens and inside the content of a string, with nothing of an escape
  pending.
\<close>

definition inStr :: "pmode \<Rightarrow> jsonStreamParser \<Rightarrow> bool" where
  "inStr m p =
     (unicodeLeft p = 0 \<and> unicodeBuf p = [] \<and> inString p \<and> \<not> escape p \<and> mode p = m \<and>
      neverFails (onEmotion p))"

definition outside :: "jsonStreamParser \<Rightarrow> bool" where
  "outside p =
     (unicodeLeft p = 0 \<and> unicodeBuf p = [] \<and> \<not> inString p \<and> \<not> escape p \<and>
      currentKey p = [] \<and> neverFails (onEmotion p))"

text \<open>How the content of a string changes the parser: p before, q after, rs the decoded runes.\<close>

definition strRun :: "pmode \<Rightarrow> jsonStreamParser \<Rightarrow> jsonStreamParser \<Rightarrow> gostring \<Rightarrow> bool" where
  "strRun m p q rs =
     (inStr m q \<and> currentKeyName q = currentKeyName p \<and>
      currentKey q = (if m = ModeKey then currentKey p @ rs else currentKey p) \<and>
      replyBuilder q =
        (if m = ModeValue \<and> currentKeyName p = str ''reply'' then replyBuilder p @ rs
         else replyBuilder p))"

section \<open>Verified properties\<close>

subsection \<open>The extractor, rune by rune\<close>

lemma forget_sel [simp]:
  "onReply (forget p) = onReply p"
  "onEmotion (forget p) = onEmotion p"
  "replyBuilder (forget p) = replyBuilder p"
  "currentKey (forget p) = currentKey p"
  "currentValue (forget p) = currentValue p"
  "currentKeyName (forget p) = currentKeyName p"
  "emotion (forget p) = emotion p"
  "inString (forget p) = inString p"
  "expectValue (forget p) = expectValue p"
  "mode (forget p) = mode p"
  "escape (forget p) = escape p"
  "unicodeLeft (forget p) = unicodeLeft p"
  "unicodeBuf (forget p) = unicodeBuf p"
  "emotionCalls (forget p) = emotionCalls p"
  "replyChunk (forget p) = []"
  "replyCalls (forget p) = []"
  by (simp_all add: forget_def)

lemma stepP_unicode:
  "unicodeLeft p > 0 \<Longrightarrow> stepP p r =
     (let p1 = p\<lparr>unicodeBuf := WriteRune (unicodeBuf p) r, unicodeLeft := unicodeLeft p - 1\<rparr>
      in if unicodeLeft p1 = 0 then
           (let d = decodeUnicode (unicodeBuf p1); p2 = p1\<lparr>unicodeBuf := []\<rparr>
            in if snd d then handleRune p2 (fst d) else p2)
         else p1)"
  by (simp add: stepP_def feedRune_def Let_def)

lemma stepP_escape:
  "\<not> unicodeLeft p > 0 \<Longrightarrow> inString p \<Longrightarrow> escape p \<Longrightarrow> stepP p r =
     (let p1 = p\<lparr>escape := False\<rparr>
      in if r = 34 \<or> r = 92 \<or> r = 47 then handleRune p1 r
         else if r = 98 then handleRune p1 8
         else if r = 102 then handleRune p1 12
         else if r = 110 then handleRune p1 10
         else if r = 114 then handleRune p1 13
         else if r = 116 then handleRune p1 9
         else if r = 117 then p1\<lparr>unicodeLeft := 4\<rparr>
         else handleRune p1 r)"
  by (simp add: stepP_def feedRune_def Let_def)

lemma stepP_backslash:
  "\<not> unicodeLeft p > 0 \<Longrightarrow> inString p \<Longrightarrow> \<not> escape p \<Longrightarrow> r = 92 \<Longrightarrow>
   stepP p r = p\<lparr>escape := True\<rparr>"
  by (simp add: stepP_def feedRune_def Let_def)

lemma stepP_close:
  "\<not> unicodeLeft p > 0 \<Longrightarrow> inString p \<Longrightarrow> \<not> escape p \<Longrightarrow> r = 34 \<Longrightarrow>
   stepP p r =
     (if mode p = ModeKey then
        p\<lparr>inString := False, currentKeyName := currentKey p, currentKey := [],
          expectValue := True, mode := ModeNone\<rparr>
      else if mode p = ModeValue then
        (if currentKeyName p = str ''emotion'' \<and> emotion p = [] then
           (case onEmotion p of
              None \<Rightarrow> p\<lparr>inString := False, emotion := currentValue p, currentValue := [],
                         expectValue := False, mode := ModeNone\<rparr>
            | Some f \<Rightarrow>
                (case f (currentValue p) of
                   Some e \<Rightarrow> p\<lparr>inString := False, emotion := currentValue p,
                               emotionCalls := emotionCalls p @ [currentValue p]\<rparr>
                 | None \<Rightarrow> p\<lparr>inString := False, emotion := currentValue p,
                             emotionCalls := emotionCalls p @ [currentValue p],
                             currentValue := [], expectValue := False, mode := ModeNone\<rparr>))
         else p\<lparr>inString := False, currentValue := [], expectValue := False, mode := ModeNone\<rparr>)
      else p\<lparr>inString := False, mode := ModeNone\<rparr>)"
  by (simp add: stepP_def feedRune_def Let_def split: option.splits)

lemma stepP_plain:
  "\<not> unicodeLeft p > 0 \<Longrightarrow> inString p \<Longrightarrow> \<not> escape p \<Longrightarrow> r \<noteq> 92 \<Longrightarrow> r \<noteq> 34 \<Longrightarrow>
   stepP p r = handleRune p r"
  by (simp add: stepP_def feedRune_def Let_def)

lemma stepP_outside:
  "\<not> unicodeLeft p > 0 \<Longrightarrow> \<not> inString p \<Longrightarrow>
   stepP p r =
     (if r = 34 then p\<lparr>inString := True, mode := (if expectValue p then ModeValue else ModeKey)\<rparr>
      else if r = 44 then p\<lparr>expectValue := False, mode := ModeNone\<rparr>
      else p)"
  by (simp add: stepP_def feedRune_def Let_def)

lemma forget_handleRune_cong:
  "forget q = forget q' \<Longrightarrow> forget (handleRune q r) = forget (handleRune q' r)"
  apply (cases q)
  apply (cases q')
  apply (simp add: forget_def handleRune_def)
  done

lemma forget_stepP: "forget (stepP (forget p) r) = forget (stepP p r)"
proof (cases "unicodeLeft p > 0")
  case True
  then show ?thesis
    by (auto simp add: stepP_unicode Let_def intro!: forget_handleRune_cong) (simp_all add: forget_def)?
next
  case nu: False
  show ?thesis
  proof (cases "inString p")
    case False
    with nu show ?thesis by (simp add: stepP_outside) (simp add: forget_def)?
  next
    case ins: True
    show ?thesis
    proof (cases "escape p")
      case True
      with nu ins show ?thesis
        by (auto simp add: stepP_escape Let_def intro!: forget_handleRune_cong) (simp_all add: forget_def)?
    next
      case ne: False
      consider "r = 92" | "r = 34" | "r \<noteq> 92 \<and> r \<noteq> 34" by blast
      then show ?thesis
      proof cases
        case 1
        with nu ins ne show ?thesis by (simp add: stepP_backslash) (simp add: forget_def)?
      next
        case 2
        with nu ins ne show ?thesis
          by (simp add: stepP_close split: option.splits) (simp add: forget_def)?
      next
        case 3
        with nu ins ne show ?thesis
          by (auto simp add: stepP_plain intro!: forget_handleRune_cong) (simp_all add: forget_def)?
      qed
    qed
  qed
qed

lemma len_eq_0 [simp]: "(len s = 0) = (s = [])"
  by (cases s) (simp_all add: len_def runeLen_def)

lemma handleRune_callbacks [simp]:
  "onReply (handleRune p r) = onReply p" "onEmotion (handleRune p r) = onEmotion p"
  "replyCalls (handleRune p r) = replyCalls p"
  by (simp_all add: handleRune_def)

lemma stepP_callbacks [simp]:
  "onReply (stepP p r) = onReply p" "onEmotion (stepP p r) = onEmotion p"
  "replyCalls (stepP p r) = replyCalls p"
  by (simp_all add: stepP_def feedRune_def Let_def split: option.splits)

lemma foldl_stepP_callbacks [simp]:
  "onReply (foldl stepP p rs) = onReply p" "onEmotion (foldl stepP p rs) = onEmotion p"
  "replyCalls (foldl stepP p rs) = replyCalls p"
  by (induction rs arbitrary: p) simp_all

lemma flushP_callbacks [simp]:
  "onReply (flushP p) = onReply p" "onEmotion (flushP p) = onEmotion p"
  by (simp_all add: flushP_def flushReply_def Let_def split: option.splits)

lemma feedRune_fst: "feedRune p r = (stepP p r, snd (feedRune p r))"
  by (simp add: stepP_def)

lemma feedRune_neverFails: "neverFails (onEmotion p) \<Longrightarrow> snd (feedRune p r) = None"
  by (simp add: feedRune_def neverFails_def Let_def split: option.splits)

lemma feedLoop_success:
  "snd (feedLoop p rs) = None \<Longrightarrow> feedLoop p rs = (foldl stepP p rs, None)"
proof (induction rs arbitrary: p)
  case Nil
  show ?case by simp
next
  case (Cons r rs)
  show ?case
  proof (cases "snd (feedRune p r)")
    case None
    then have fr: "feedRune p r = (stepP p r, None)" by (metis feedRune_fst)
    with Cons.prems have "snd (feedLoop (stepP p r) rs) = None" by simp
    from Cons.IH [OF this] fr show ?thesis by simp
  next
    case (Some e)
    then have "feedRune p r = (stepP p r, Some e)" by (metis feedRune_fst)
    with Cons.prems show ?thesis by simp
  qed
qed

lemma feedLoop_neverFails:
  "neverFails (onEmotion p) \<Longrightarrow> snd (feedLoop p rs) = None"
proof (induction rs arbitrary: p)
  case Nil
  show ?case by simp
next
  case (Cons r rs)
  from Cons.prems have fr: "feedRune p r = (stepP p r, None)"
    using feedRune_fst [of p r] by (simp add: feedRune_neverFails)
  from Cons.prems have "neverFails (onEmotion (stepP p r))" by simp
  from Cons.IH [OF this] fr show ?case by simp
qed

lemma flushReply_fst: "flushReply p = (flushP p, snd (flushReply p))"
  by (simp add: flushP_def)

lemma flushReply_neverFails: "neverFails (onReply p) \<Longrightarrow> snd (flushReply p) = None"
  by (simp add: flushReply_def neverFails_def Let_def split: option.splits)

lemma Feed_success:
  "snd (Feed p text) = None \<Longrightarrow>
   Feed p text = (flushP (foldl stepP p text), None) \<and>
   snd (flushReply (foldl stepP p text)) = None"
proof -
  assume ok: "snd (Feed p text) = None"
  obtain q e where qe: "feedLoop p text = (q, e)" by (cases "feedLoop p text")
  have "e = None"
  proof (cases e)
    case None
    then show ?thesis .
  next
    case (Some x)
    with qe have "snd (Feed p text) = Some x" by (simp add: Feed_def)
    with ok show ?thesis by simp
  qed
  with qe have "snd (feedLoop p text) = None" by simp
  then have fl: "feedLoop p text = (foldl stepP p text, None)" by (rule feedLoop_success)
  then have F: "Feed p text = flushReply (foldl stepP p text)" by (simp add: Feed_def)
  with ok have "snd (flushReply (foldl stepP p text)) = None" by simp
  with F show ?thesis using flushReply_fst [of "foldl stepP p text"] by simp
qed

lemma Feed_neverFails:
  "neverFails (onReply p) \<Longrightarrow> neverFails (onEmotion p) \<Longrightarrow> snd (Feed p text) = None"
proof -
  assume r: "neverFails (onReply p)" and e: "neverFails (onEmotion p)"
  from e have "feedLoop p text = (foldl stepP p text, None)"
    by (simp add: feedLoop_success feedLoop_neverFails)
  then have "Feed p text = flushReply (foldl stepP p text)" by (simp add: Feed_def)
  with r show ?thesis by (simp add: flushReply_neverFails)
qed

lemma forget_flushP [simp]: "forget (flushP p) = forget p"
  by (simp add: flushP_def flushReply_def forget_def Let_def split: option.splits)

lemma forget_foldl: "forget (foldl stepP (forget p) rs) = forget (foldl stepP p rs)"
proof (induction rs arbitrary: p)
  case Nil
  show ?case by (simp add: forget_def)
next
  case (Cons r rs)
  have "forget (foldl stepP (stepP (forget p) r) rs) =
        forget (foldl stepP (forget (stepP (forget p) r)) rs)"
    by (rule Cons.IH [symmetric])
  also have "\<dots> = forget (foldl stepP (forget (stepP p r)) rs)"
    by (simp add: forget_stepP)
  also have "\<dots> = forget (foldl stepP (stepP p r) rs)"
    by (rule Cons.IH)
  finally show ?case by simp
qed

lemma forget_foldl_cong:
  "forget p = forget q \<Longrightarrow> forget (foldl stepP p rs) = forget (foldl stepP q rs)"
  by (metis forget_foldl)

lemma delivered_handleRune: "delivered_ok p \<Longrightarrow> delivered_ok (handleRune p r)"
  by (simp add: delivered_ok_def handleRune_def WriteRune_def)

lemma delivered_upd [simp]:
  "delivered_ok (p\<lparr>escape := e\<rparr>) = delivered_ok p"
  "delivered_ok (p\<lparr>unicodeBuf := b\<rparr>) = delivered_ok p"
  "delivered_ok (p\<lparr>unicodeLeft := n\<rparr>) = delivered_ok p"
  by (simp_all add: delivered_ok_def)

lemma delivered_stepP: "delivered_ok p \<Longrightarrow> delivered_ok (stepP p r)"
proof (cases "unicodeLeft p > 0")
  case True
  assume "delivered_ok p"
  with True show ?thesis
    by (auto simp add: stepP_unicode Let_def intro!: delivered_handleRune)
next
  case nu: False
  assume d: "delivered_ok p"
  show ?thesis
  proof (cases "inString p")
    case False
    with nu d show ?thesis by (simp add: stepP_outside) (simp add: delivered_ok_def)
  next
    case ins: True
    show ?thesis
    proof (cases "escape p")
      case True
      with nu ins d show ?thesis
        by (auto simp add: stepP_escape Let_def intro!: delivered_handleRune)
    next
      case ne: False
      consider "r = 92" | "r = 34" | "r \<noteq> 92 \<and> r \<noteq> 34" by blast
      then show ?thesis
      proof cases
        case 1
        with nu ins ne d show ?thesis by (simp add: stepP_backslash)
      next
        case 2
        with nu ins ne d show ?thesis
          by (simp add: stepP_close split: option.splits) (simp add: delivered_ok_def)
      next
        case 3
        with nu ins ne d show ?thesis by (simp add: stepP_plain delivered_handleRune)
      qed
    qed
  qed
qed

lemma delivered_foldl: "delivered_ok p \<Longrightarrow> delivered_ok (foldl stepP p rs)"
  by (induction rs arbitrary: p) (simp_all add: delivered_stepP)

lemma delivered_flushP:
  "snd (flushReply p) = None \<Longrightarrow> onReply p \<noteq> None \<Longrightarrow> delivered_ok p \<Longrightarrow>
   delivered_ok (flushP p) \<and> replyChunk (flushP p) = []"
  by (auto simp add: flushP_def flushReply_def delivered_ok_def Let_def split: option.splits if_splits)

lemma flushP_nil:
  "onReply p = None \<Longrightarrow> replyCalls (flushP p) = replyCalls p"
  by (simp add: flushP_def flushReply_def)

text \<open>What a run of successful feeds leaves behind.\<close>

lemma feedAll_Cons_success:
  assumes "snd (feedAll p (c # cs)) = None"
  shows "Feed p c = (flushP (foldl stepP p c), None)"
    and "snd (flushReply (foldl stepP p c)) = None"
    and "feedAll p (c # cs) = feedAll (flushP (foldl stepP p c)) cs"
proof -
  obtain q e where qe: "Feed p c = (q, e)" by (cases "Feed p c")
  have "e = None"
  proof (cases e)
    case None
    then show ?thesis .
  next
    case (Some x)
    with qe have "snd (feedAll p (c # cs)) = Some x" by simp
    with assms show ?thesis by simp
  qed
  with qe have "snd (Feed p c) = None" by simp
  from Feed_success [OF this]
  show F: "Feed p c = (flushP (foldl stepP p c), None)"
    and "snd (flushReply (foldl stepP p c)) = None"
    by simp_all
  from F show "feedAll p (c # cs) = feedAll (flushP (foldl stepP p c)) cs" by simp
qed

lemma feedAll_forget:
  "snd (feedAll p cs) = None \<Longrightarrow>
   forget (fst (feedAll p cs)) = forget (foldl stepP p (concat cs))"
proof (induction cs arbitrary: p)
  case Nil
  show ?case by simp
next
  case (Cons c cs)
  let ?q = "flushP (foldl stepP p c)"
  from feedAll_Cons_success(3) [OF Cons.prems]
  have eq: "feedAll p (c # cs) = feedAll ?q cs" .
  with Cons.prems have r: "snd (feedAll ?q cs) = None" by simp
  have "forget (fst (feedAll p (c # cs))) = forget (fst (feedAll ?q cs))"
    using eq by simp
  also have "\<dots> = forget (foldl stepP ?q (concat cs))" by (rule Cons.IH [OF r])
  also have "\<dots> = forget (foldl stepP (foldl stepP p c) (concat cs))"
    by (rule forget_foldl_cong) simp
  finally show ?case by simp
qed

lemma feedAll_delivered:
  "snd (feedAll p cs) = None \<Longrightarrow> onReply p \<noteq> None \<Longrightarrow> delivered_ok p \<Longrightarrow>
   replyChunk p = [] \<Longrightarrow>
   delivered_ok (fst (feedAll p cs)) \<and> replyChunk (fst (feedAll p cs)) = []"
proof (induction cs arbitrary: p)
  case Nil
  then show ?case by simp
next
  case (Cons c cs)
  let ?q = "flushP (foldl stepP p c)"
  from feedAll_Cons_success [OF Cons.prems(1)]
  have fl: "snd (flushReply (foldl stepP p c)) = None"
    and eq: "feedAll p (c # cs) = feedAll ?q cs" by simp_all
  from eq Cons.prems(1) have r: "snd (feedAll ?q cs) = None" by simp
  from Cons.prems have "delivered_ok (foldl stepP p c)" by (simp add: delivered_foldl)
  with fl Cons.prems(2) have q: "delivered_ok ?q \<and> replyChunk ?q = []"
    by (intro delivered_flushP) simp_all
  from Cons.prems(2) have "onReply ?q \<noteq> None" by simp
  from Cons.IH [OF r this] q eq show ?case by simp
qed

lemma feedAll_nil_callback:
  "snd (feedAll p cs) = None \<Longrightarrow> onReply p = None \<Longrightarrow>
   replyCalls (fst (feedAll p cs)) = replyCalls p"
proof (induction cs arbitrary: p)
  case Nil
  show ?case by simp
next
  case (Cons c cs)
  let ?q = "flushP (foldl stepP p c)"
  from feedAll_Cons_success(3) [OF Cons.prems(1)]
  have eq: "feedAll p (c # cs) = feedAll ?q cs" .
  with Cons.prems(1) have r: "snd (feedAll ?q cs) = None" by simp
  from Cons.prems(2) have "onReply ?q = None" by simp
  from Cons.IH [OF r this] eq Cons.prems(2) show ?case by (simp add: flushP_nil)
qed

text \<open>After successful feeds the callback has received exactly the decoded reply so far.\<close>

lemma feedAll_replyCalls:
  assumes "snd (feedAll p cs) = None" and "onReply p \<noteq> None" and "delivered_ok p"
    and "replyChunk p = []"
  shows "concat (replyCalls (fst (feedAll p cs))) = replyBuilder (foldl stepP p (concat cs))"
proof -
  from feedAll_delivered [OF assms]
  have "concat (replyCalls (fst (feedAll p cs))) = replyBuilder (fst (feedAll p cs))"
    by (metis append_Nil2 delivered_ok_def)
  also have "\<dots> = replyBuilder (foldl stepP p (concat cs))"
    using feedAll_forget [OF assms(1)] by (metis forget_sel(3))
  finally show ?thesis .
qed

lemma feedAll_neverFails:
  "neverFails (onReply p) \<Longrightarrow> neverFails (onEmotion p) \<Longrightarrow> snd (feedAll p cs) = None"
proof (induction cs arbitrary: p)
  case Nil
  show ?case by simp
next
  case (Cons c cs)
  from Cons.prems have ok: "snd (Feed p c) = None" by (rule Feed_neverFails)
  from Feed_success [OF ok] have F: "Feed p c = (flushP (foldl stepP p c), None)" by simp
  from Cons.prems have "neverFails (onReply (flushP (foldl stepP p c)))"
    "neverFails (onEmotion (flushP (foldl stepP p c)))" by simp_all
  from Cons.IH [OF this] F show ?case by simp
qed

lemma forget_replyBuilder: "forget p = forget q \<Longrightarrow> replyBuilder p = replyBuilder q"
  by (metis forget_sel(3))

subsection \<open>Chunk-boundary independence\<close>

text \<open>
  Claim C1. Feed a fresh parser the chunks of any splitting of a string, one \<^verbatim>\<open>Feed\<close> call
  per chunk, or feed it the whole string in one call: when the two callbacks return no
  error, both runs complete without error and the arguments passed to the pass-through
  callback, concatenated in order, are the same. Chunks are lists of runes, so every split
  is at a character boundary; empty chunks are allowed.
\<close>

theorem chunk_boundary_independence:
  assumes "neverFails onR" and "neverFails onE"
  shows "snd (feedAll (newJSONStreamParser onR onE) chunks) = None \<and>
         snd (Feed (newJSONStreamParser onR onE) (concat chunks)) = None \<and>
         concat (replyCalls (fst (feedAll (newJSONStreamParser onR onE) chunks))) =
         concat (replyCalls (fst (Feed (newJSONStreamParser onR onE) (concat chunks))))"
proof -
  let ?p = "newJSONStreamParser onR onE"
  have cb: "onReply ?p = onR" "onEmotion ?p = onE" "replyChunk ?p = []" "replyCalls ?p = []"
    "delivered_ok ?p"
    by (simp_all add: newJSONStreamParser_def delivered_ok_def)
  from assms cb have a: "snd (feedAll ?p chunks) = None" by (simp add: feedAll_neverFails)
  from assms cb have b: "snd (Feed ?p (concat chunks)) = None" by (simp add: Feed_neverFails)
  from Feed_success [OF b]
  have F: "Feed ?p (concat chunks) = (flushP (foldl stepP ?p (concat chunks)), None)" by simp
  have one: "fst (feedAll ?p [concat chunks]) = fst (Feed ?p (concat chunks))"
    using F by simp
  have b': "snd (feedAll ?p [concat chunks]) = None"
    using F by simp
  have "concat (replyCalls (fst (feedAll ?p chunks))) =
        concat (replyCalls (fst (feedAll ?p [concat chunks])))"
  proof (cases onR)
    case None
    with cb feedAll_nil_callback [OF a] feedAll_nil_callback [OF b'] show ?thesis by simp
  next
    case (Some f)
    with cb have ne: "onReply ?p \<noteq> None" by simp
    from feedAll_replyCalls [OF a ne cb(5) cb(3)] feedAll_replyCalls [OF b' ne cb(5) cb(3)]
    show ?thesis by simp
  qed
  with a b one show ?thesis by simp
qed

theorem chunk_boundary_independence_witness:
  \<open>neverFails (Some (\<lambda>_. None)) \<and>
   concat (replyCalls (fst (feedAll (newJSONStreamParser (Some (\<lambda>_. None)) (Some (\<lambda>_. None)))
      [str ''{"emotion":"happ'', str ''y","reply":"He'', str ''llo!"}'']))) =
   concat (replyCalls (fst (Feed (newJSONStreamParser (Some (\<lambda>_. None)) (Some (\<lambda>_. None)))
      (concat [str ''{"emotion":"happ'', str ''y","reply":"He'', str ''llo!"}'']))))
   \<and> replyCalls (fst (feedAll (newJSONStreamParser (Some (\<lambda>_. None)) (Some (\<lambda>_. None)))
      [str ''{"emotion":"happ'', str ''y","reply":"He'', str ''llo!"}''])) =
     [str ''He'', str ''llo!'']\<close>
proof -
  have h: "neverFails (Some (\<lambda>_. None))" by (simp add: neverFails_def)
  have v: \<open>replyCalls (fst (feedAll (newJSONStreamParser (Some (\<lambda>_. None)) (Some (\<lambda>_. None)))
      [str ''{"emotion":"happ'', str ''y","reply":"He'', str ''llo!"}''])) =
     [str ''He'', str ''llo!'']\<close>
    by code_simp
  from chunk_boundary_independence [OF h h] h v show ?thesis by blast
qed

subsection \<open>The capture callback and a repeated key\<close>

text \<open>
  Claim C3. The capture callback is to fire at most once per parser, with the value of the
  first closed occurrence of the key \<^verbatim>\<open>emotion\<close>. The parser recognises a finalized
  capture by \<^verbatim>\<open>p.emotion != ""\<close>, so a first occurrence whose value is the empty string
  is delivered and yet leaves the capture open: on the input below the callback is invoked
  twice, first with the empty string and then with the value of the second occurrence,
  which also replaces the stored emotion.
\<close>

theorem capture_twice_on_empty_first_value:
  \<open>emotionCalls (fst (Feed (newJSONStreamParser (Some (\<lambda>_. None)) (Some (\<lambda>_. None)))
      (str ''{"emotion":"","emotion":"sad","reply":"hi"}''))) = [[], str ''sad''] \<and>
   emotion (fst (Feed (newJSONStreamParser (Some (\<lambda>_. None)) (Some (\<lambda>_. None)))
      (str ''{"emotion":"","emotion":"sad","reply":"hi"}''))) = str ''sad'' \<and>
   snd (Feed (newJSONStreamParser (Some (\<lambda>_. None)) (Some (\<lambda>_. None)))
      (str ''{"emotion":"","emotion":"sad","reply":"hi"}'')) = None\<close>
  by code_simp

subsection \<open>Emotion normalization\<close>

lemma fallback_trimmed: "fallbackEmotion tbl E = trimmedFallback tbl E"
  by (induction E) (simp_all add: trimmedFallback_def)

lemma ToLower_neutral: "ToLower tbl (str ''neutral'') = str ''neutral''"
  by (simp add: ToLower_def toLowerRune_def str_def)

lemma fallback_lower: "\<exists>x. fallbackEmotion tbl E = ToLower tbl x"
  by (induction E) (auto intro: ToLower_neutral [symmetric])

lemma normalizeLoop_cases:
  "normalizeLoop tbl x E = (if \<exists>e \<in> set E. x = ToLower tbl (TrimSpace e) then x else [])"
  by (induction E) auto

text \<open>
  Claim C5, as amended. For every allowed list and every raw provider emotion, whatever
  the Unicode case table: the emotion of the final reply is the result of lower-casing a
  string, so that lower-casing it again changes nothing when the table maps every
  lower-cased rune to itself; it is the lower-cased, white-space-trimmed form of a member
  of the list, or it is the fallback; and the fallback is the first member that is
  non-empty once trimmed, trimmed and lower-cased, or \<^verbatim>\<open>neutral\<close> when there is none. The
  last conjunct says which of the two it is: the trimmed, lower-cased raw emotion when that
  is non-empty and equals the trimmed, lower-cased form of a member, the fallback
  otherwise.
\<close>

theorem emotion_normalization:
  "(\<exists>x. finalEmotion tbl s E = ToLower tbl x) \<and>
   ((\<forall>r. toLowerRune tbl (toLowerRune tbl r) = toLowerRune tbl r) \<longrightarrow>
      ToLower tbl (finalEmotion tbl s E) = finalEmotion tbl s E) \<and>
   ((\<exists>e \<in> set E. finalEmotion tbl s E = ToLower tbl (TrimSpace e)) \<or>
    finalEmotion tbl s E = trimmedFallback tbl E) \<and>
   finalEmotion tbl s E =
     (if ToLower tbl (TrimSpace s) \<noteq> [] \<and>
         (\<exists>e \<in> set E. ToLower tbl (TrimSpace s) = ToLower tbl (TrimSpace e))
      then ToLower tbl (TrimSpace s) else trimmedFallback tbl E)"
proof -
  have 3: "finalEmotion tbl s E =
     (if ToLower tbl (TrimSpace s) \<noteq> [] \<and>
         (\<exists>e \<in> set E. ToLower tbl (TrimSpace s) = ToLower tbl (TrimSpace e))
      then ToLower tbl (TrimSpace s) else trimmedFallback tbl E)"
    by (auto simp add: finalEmotion_def normalizeEmotion_def normalizeLoop_cases Let_def fallback_trimmed)
  have 1: "\<exists>x. finalEmotion tbl s E = ToLower tbl x"
    using fallback_lower [of tbl E] by (auto simp add: 3 fallback_trimmed)
  have 2: "(\<exists>e \<in> set E. finalEmotion tbl s E = ToLower tbl (TrimSpace e)) \<or>
    finalEmotion tbl s E = trimmedFallback tbl E"
    by (auto simp add: 3)
  have 4: "ToLower tbl (finalEmotion tbl s E) = finalEmotion tbl s E"
    if "\<forall>r. toLowerRune tbl (toLowerRune tbl r) = toLowerRune tbl r"
  proof -
    from 1 obtain x where x: "finalEmotion tbl s E = ToLower tbl x" by blast
    from that have "ToLower tbl (ToLower tbl x) = ToLower tbl x"
      by (simp add: ToLower_def)
    with x show ?thesis by simp
  qed
  from 1 2 3 4 show ?thesis by blast
qed

theorem emotion_normalization_witness:
  "(\<forall>r. toLowerRune (\<lambda>r. r) (toLowerRune (\<lambda>r. r) r) = toLowerRune (\<lambda>r. r) r) \<and>
   ToLower (\<lambda>r. r) (finalEmotion (\<lambda>r. r) (str '' HAPPY '') [str ''sad'', str '' Happy'']) =
     finalEmotion (\<lambda>r. r) (str '' HAPPY '') [str ''sad'', str '' Happy''] \<and>
   finalEmotion (\<lambda>r. r) (str '' HAPPY '') [str ''sad'', str '' Happy''] = str ''happy''"
proof -
  have h: "\<forall>r. toLowerRune (\<lambda>r. r) (toLowerRune (\<lambda>r. r) r) = toLowerRune (\<lambda>r. r) r"
    by (simp add: toLowerRune_def)
  have v: "finalEmotion (\<lambda>r. r) (str '' HAPPY '') [str ''sad'', str '' Happy''] = str ''happy''"
    by code_simp
  from emotion_normalization [of "\<lambda>r. r" "str '' HAPPY ''" "[str ''sad'', str '' Happy'']"] h v
  show ?thesis by blast
qed

text \<open>
  The claim without the trimming fails on a list with a padded entry: the result
  \<^verbatim>\<open>sad\<close> is neither a case-insensitive member of the list, whose only entry is
  \<^verbatim>\<open>Sad\<close> after a space, nor the lower-cased first non-empty member.
\<close>

theorem emotion_claim_counterexample:
  "finalEmotion (\<lambda>r. r) (str ''x'') [str '' Sad''] = str ''sad'' \<and>
   \<not> caseInsensitiveMember (\<lambda>r. r) (finalEmotion (\<lambda>r. r) (str ''x'') [str '' Sad'']) [str '' Sad''] \<and>
   finalEmotion (\<lambda>r. r) (str ''x'') [str '' Sad''] \<noteq> claimedFallback (\<lambda>r. r) [str '' Sad'']"
  by (simp add: finalEmotion_def normalizeEmotion_def caseInsensitiveMember_def claimedFallback_def
      ToLower_def toLowerRune_def TrimSpace_def isSpace_def str_def)


subsection \<open>The schema builder\<close>

text \<open>
  Claim C7. For every client the response format is of type \<^verbatim>\<open>json_schema\<close>; its schema
  describes an object (\<^verbatim>\<open>type\<close> object, \<^verbatim>\<open>additionalProperties\<close> false) whose properties
  are exactly \<^verbatim>\<open>reply\<close> and \<^verbatim>\<open>emotion\<close>, both of type string and both required; the
  emotion property has an \<^verbatim>\<open>enum\<close> entry if and only if the allowed list is non-empty, and
  then the entry is the allowed list itself; and the result depends on no field of the
  client but the allowed list.
\<close>

theorem schema_builder_contract:
  "Type (buildStructuredFormat c) = str ''json_schema'' \<and>
   (\<exists>js props emo.
      JsonSchema (buildStructuredFormat c) = Some js \<and>
      distinct (map fst (Schema js)) \<and>
      map_of (Schema js) (str ''type'') = Some (JString (str ''object'')) \<and>
      map_of (Schema js) (str ''additionalProperties'') = Some (JBool False) \<and>
      map_of (Schema js) (str ''required'') = Some (JStrings [str ''reply'', str ''emotion'']) \<and>
      map_of (Schema js) (str ''properties'') = Some (JMap props) \<and>
      map fst props = [str ''reply'', str ''emotion''] \<and>
      map_of props (str ''reply'') = Some (JMap [(str ''type'', JString (str ''string''))]) \<and>
      map_of props (str ''emotion'') = Some (JMap emo) \<and>
      distinct (map fst emo) \<and>
      map_of emo (str ''type'') = Some (JString (str ''string'')) \<and>
      map_of emo (str ''enum'') = (if emotions c = [] then None else Some (JStrings (emotions c))) \<and>
      dom (map_of emo) = (if emotions c = [] then {str ''type''} else {str ''type'', str ''enum''})) \<and>
   buildStructuredFormat
     (c\<lparr>baseURL := u, apiKey := k, model := m, temperature := t, systemPrompt := sp,
        promptPath := pp\<rparr>) = buildStructuredFormat c"
  by (simp add: buildStructuredFormat_def buildEmotionSchema_def str_def)

subsection \<open>The negotiator\<close>

lemma doChatRequest_sent:
  "snd (doChatRequest ev c sent rq) =
     (if apiKey c = [] \<or> \<not> buildRequest ev c rq then sent else sent @ [rq])"
  by (simp add: doChatRequest_def split: httpResult.splits option.splits)

lemma doChatStreamRequest_sent:
  "snd (doChatStreamRequest ev c sent rq) =
     (if apiKey c = [] \<or> \<not> buildRequest ev c rq then sent else sent @ [rq])"
  by (simp add: doChatStreamRequest_def split: httpResult.splits option.splits)

lemma transport_sendsOrStops:
  "sendsOrStops ev (doChatRequest ev c)" "sendsOrStops ev (doChatStreamRequest ev c)"
  by (auto simp add: sendsOrStops_def doChatRequest_def doChatStreamRequest_def
      retryWithoutTemperature_def fallbackToJSONMode_def split: httpResult.splits option.splits)

lemma sendsOrStops_cases:
  assumes "sendsOrStops ev doReq" and "doReq sent rq = (x, s)"
  shows "s = sent @ [rq] \<or>
         (s = sent \<and> (\<exists>e. x = Inl e \<and> \<not> retryWithoutTemperature ev e \<and> \<not> fallbackToJSONMode ev e))"
  using assms unfolding sendsOrStops_def by (metis fst_conv snd_conv)

lemma chain_shapes:
  assumes tr: "sendsOrStops ev doReq"
  shows "snd (fallbackChain ev doReq r) \<in> set (escalations r) \<and>
         (snd (doReq [] r) \<noteq> [] \<longrightarrow> snd (fallbackChain ev doReq r) \<noteq> [])"
proof -
  note pr = sendsOrStops_cases [OF tr]
  let ?t = "r\<lparr>Temperature := 0\<rparr>"
  let ?j = "r\<lparr>ResponseFormat := jsonObjectFormat\<rparr>"
  let ?tj = "r\<lparr>Temperature := 0, ResponseFormat := jsonObjectFormat\<rparr>"
  let ?jt = "r\<lparr>ResponseFormat := jsonObjectFormat, Temperature := 0\<rparr>"
  note defs = fallbackChain_def escalations_def withoutTemperature_def inJSONMode_def Let_def
  obtain res1 s1 where d1: "doReq [] r = (res1, s1)" by (cases "doReq [] r")
  show ?thesis
  proof (cases res1)
    case (Inr v)
    with d1 pr [OF d1] show ?thesis by (auto simp add: defs)
  next
    case e1: (Inl e1)
    show ?thesis
    proof (cases "retryWithoutTemperature ev e1")
      case rt: True
      with e1 pr [OF d1] have s1: "s1 = [r]" by auto
      obtain res2 s2 where d2: "doReq s1 ?t = (res2, s2)" by (cases "doReq s1 ?t")
      show ?thesis
      proof (cases res2)
        case (Inr v)
        with d1 e1 rt d2 s1 pr [OF d2] show ?thesis by (auto simp add: defs)
      next
        case e2: (Inl e2)
        show ?thesis
        proof (cases "fallbackToJSONMode ev e2")
          case fj: True
          with e2 pr [OF d2] s1 have s2: "s2 = [r, ?t]" by auto
          obtain res3 s3 where d3: "doReq s2 ?tj = (res3, s3)" by (cases "doReq s2 ?tj")
          from pr [OF d3] s2 have s3: "s3 = [r, ?t, ?tj] \<or> s3 = [r, ?t]" by auto
          show ?thesis
          proof (cases res3)
            case (Inr v)
            with d1 e1 rt d2 e2 fj d3 s1 s3 show ?thesis by (auto simp add: defs)
          next
            case (Inl e3)
            with d1 e1 rt d2 e2 fj d3 s1 s3 show ?thesis by (auto simp add: defs)
          qed
        next
          case False
          from pr [OF d2] s1 have "s2 = [r, ?t] \<or> s2 = [r]" by auto
          with False d1 e1 rt d2 e2 s1 show ?thesis by (auto simp add: defs)
        qed
      qed
    next
      case rt: False
      from pr [OF d1] have s1: "s1 = [r] \<or> s1 = []" by auto
      show ?thesis
      proof (cases "fallbackToJSONMode ev e1")
        case fj: True
        with e1 pr [OF d1] have s1: "s1 = [r]" by auto
        obtain res3 s3 where d3: "doReq s1 ?j = (res3, s3)" by (cases "doReq s1 ?j")
        from pr [OF d3] s1 have s3: "s3 = [r, ?j] \<or> s3 = [r]" by auto
        show ?thesis
        proof (cases res3)
          case (Inr v)
          with d1 e1 rt fj d3 s1 s3 show ?thesis by (auto simp add: defs)
        next
          case e3: (Inl e3)
          show ?thesis
          proof (cases "retryWithoutTemperature ev e3 \<and> Temperature r \<noteq> 0")
            case True
            with e3 pr [OF d3] s1 have s3': "s3 = [r, ?j]" by auto
            obtain res4 s4 where d4: "doReq s3 ?jt = (res4, s4)" by (cases "doReq s3 ?jt")
            from pr [OF d4] s3' have s4: "s4 = [r, ?j, ?jt] \<or> s4 = [r, ?j]" by auto
            from True d1 e1 rt fj d3 e3 d4 s1 s4 show ?thesis by (auto simp add: defs)
          next
            case False
            with d1 e1 rt fj d3 e3 s1 s3 show ?thesis by (auto simp add: defs)
          qed
        qed
      next
        case False
        with d1 e1 rt s1 show ?thesis by (auto simp add: defs)
      qed
    qed
  qed
qed


lemma chain_sent_transport:
  "snd (fallbackChain ev (doChatRequest ev c) r) \<in> set (escalations r)"
  "snd (fallbackChain ev (doChatStreamRequest ev c) r) \<in> set (escalations r)"
  using chain_shapes [OF transport_sendsOrStops(1), of ev c r]
    chain_shapes [OF transport_sendsOrStops(2), of ev c r]
  by simp_all

lemma chain_first_sent:
  assumes "apiKey c \<noteq> []" and "buildRequest ev c r"
  shows "take 1 (snd (fallbackChain ev (doChatRequest ev c) r)) = [r]"
    and "take 1 (snd (fallbackChain ev (doChatStreamRequest ev c) r)) = [r]"
proof -
  have first: "take 1 tr = [r]" if "tr \<in> set (escalations r)" and "tr \<noteq> []" for tr
    using that by (auto simp add: escalations_def)
  from assms have 1: "snd (doChatRequest ev c [] r) \<noteq> []"
    by (simp add: doChatRequest_sent)
  from assms have 2: "snd (doChatStreamRequest ev c [] r) \<noteq> []"
    by (simp add: doChatStreamRequest_sent)
  from chain_shapes [OF transport_sendsOrStops(1), of ev c r] 1
  show "take 1 (snd (fallbackChain ev (doChatRequest ev c) r)) = [r]"
    by (intro first) simp_all
  from chain_shapes [OF transport_sendsOrStops(2), of ev c r] 2
  show "take 1 (snd (fallbackChain ev (doChatStreamRequest ev c) r)) = [r]"
    by (intro first) simp_all
qed

lemma escalations_length: "tr \<in> set (escalations r) \<Longrightarrow> length tr \<le> 3"
  by (auto simp add: escalations_def)

lemma GenerateReply_sent:
  "snd (GenerateReply ev c h) = snd (fallbackChain ev (doChatRequest ev c) (newRequest ev c h False))"
  by (simp add: GenerateReply_def Let_def split: prod.splits sum.splits list.splits)

lemma finishStream_requests [simp]: "requests (finishStream ev c st sent) = sent"
  by (simp add: finishStream_def Let_def split: prod.splits option.splits)

lemma StreamReply_requests:
  "requests (StreamReply ev c h oc oe) =
   snd (doChatStreamRequestWithFallback ev c (newRequest ev c h True))"
  by (simp add: StreamReply_def Let_def split: prod.splits sum.splits option.splits)

text \<open>With nothing but temperature errors the chain stops after the one downgrade.\<close>

lemma chain_temperature_only:
  assumes a: "\<And>sent rq.
       (\<exists>e. doReq sent rq = (Inl e, sent) \<and> \<not> retryWithoutTemperature ev e \<and>
            \<not> fallbackToJSONMode ev e) \<or>
       (\<exists>b. doReq sent rq = (Inl (ApiError 400 b), sent @ [rq]) \<and>
            retryWithoutTemperature ev (ApiError 400 b) \<and>
            \<not> fallbackToJSONMode ev (ApiError 400 b))"
  shows "isl (fst (fallbackChain ev doReq r)) \<and> length (snd (fallbackChain ev doReq r)) \<le> 2"
proof -
  let ?t = "r\<lparr>Temperature := 0\<rparr>"
  from a [of "[]" r] show ?thesis
  proof (elim disjE exE conjE)
    fix e
    assume "doReq [] r = (Inl e, [])" "\<not> retryWithoutTemperature ev e"
      "\<not> fallbackToJSONMode ev e"
    then show ?thesis by (simp add: fallbackChain_def Let_def)
  next
    fix b1
    assume d1: "doReq [] r = (Inl (ApiError 400 b1), [] @ [r])"
      and r1: "retryWithoutTemperature ev (ApiError 400 b1)"
    from a [of "[r]" ?t] show ?thesis
    proof (elim disjE exE conjE)
      fix e
      assume "doReq [r] ?t = (Inl e, [r])" "\<not> retryWithoutTemperature ev e"
        "\<not> fallbackToJSONMode ev e"
      with d1 r1 show ?thesis by (simp add: fallbackChain_def Let_def)
    next
      fix b2
      assume "doReq [r] ?t = (Inl (ApiError 400 b2), [r] @ [?t])"
        "\<not> fallbackToJSONMode ev (ApiError 400 b2)"
      with d1 r1 show ?thesis by (simp add: fallbackChain_def Let_def)
    qed
  qed
qed

lemma temperatureErrorsOnly_doReq:
  assumes "temperatureErrorsOnly ev"
  shows "(\<exists>e. doChatRequest ev c sent rq = (Inl e, sent) \<and> \<not> retryWithoutTemperature ev e \<and>
            \<not> fallbackToJSONMode ev e) \<or>
         (\<exists>b. doChatRequest ev c sent rq = (Inl (ApiError 400 b), sent @ [rq]) \<and>
            retryWithoutTemperature ev (ApiError 400 b) \<and>
            \<not> fallbackToJSONMode ev (ApiError 400 b))"
    and "(\<exists>e. doChatStreamRequest ev c sent rq = (Inl e, sent) \<and>
            \<not> retryWithoutTemperature ev e \<and> \<not> fallbackToJSONMode ev e) \<or>
         (\<exists>b. doChatStreamRequest ev c sent rq = (Inl (ApiError 400 b), sent @ [rq]) \<and>
            retryWithoutTemperature ev (ApiError 400 b) \<and>
            \<not> fallbackToJSONMode ev (ApiError 400 b))"
proof -
  from assms have
    "case httpDo ev (length sent) rq of
       DoError \<Rightarrow> False
     | Response status body \<Rightarrow>
         status = 400 \<and>
         shouldRetryWithoutTemperature (lowerTable ev) status (TrimSpace (ReadAll body)) \<and>
         \<not> shouldFallbackToJSONMode (lowerTable ev) status (TrimSpace (ReadAll body))"
    unfolding temperatureErrorsOnly_def by blast
  then obtain body where h: "httpDo ev (length sent) rq = Response 400 body"
    and t: "shouldRetryWithoutTemperature (lowerTable ev) 400 (TrimSpace (ReadAll body))"
    and j: "\<not> shouldFallbackToJSONMode (lowerTable ev) 400 (TrimSpace (ReadAll body))"
    by (auto split: httpResult.splits)
  from h t j
  show "(\<exists>e. doChatRequest ev c sent rq = (Inl e, sent) \<and> \<not> retryWithoutTemperature ev e \<and>
            \<not> fallbackToJSONMode ev e) \<or>
         (\<exists>b. doChatRequest ev c sent rq = (Inl (ApiError 400 b), sent @ [rq]) \<and>
            retryWithoutTemperature ev (ApiError 400 b) \<and>
            \<not> fallbackToJSONMode ev (ApiError 400 b))"
    by (simp add: doChatRequest_def retryWithoutTemperature_def fallbackToJSONMode_def)
  from h t j
  show "(\<exists>e. doChatStreamRequest ev c sent rq = (Inl e, sent) \<and>
            \<not> retryWithoutTemperature ev e \<and> \<not> fallbackToJSONMode ev e) \<or>
         (\<exists>b. doChatStreamRequest ev c sent rq = (Inl (ApiError 400 b), sent @ [rq]) \<and>
            retryWithoutTemperature ev (ApiError 400 b) \<and>
            \<not> fallbackToJSONMode ev (ApiError 400 b))"
    by (simp add: doChatStreamRequest_def retryWithoutTemperature_def fallbackToJSONMode_def)
qed

lemma chain_temperature_only_transport:
  assumes "temperatureErrorsOnly ev"
  shows "isl (fst (fallbackChain ev (doChatRequest ev c) r)) \<and>
         length (snd (fallbackChain ev (doChatRequest ev c) r)) \<le> 2"
    and "isl (fst (fallbackChain ev (doChatStreamRequest ev c) r)) \<and>
         length (snd (fallbackChain ev (doChatStreamRequest ev c) r)) \<le> 2"
  using chain_temperature_only [of "doChatRequest ev c" ev r,
      OF temperatureErrorsOnly_doReq(1) [OF assms]]
    chain_temperature_only [of "doChatStreamRequest ev c" ev r,
      OF temperatureErrorsOnly_doReq(2) [OF assms]]
  by simp_all

lemma GenerateReply_error:
  "isl (fst (fallbackChain ev (doChatRequest ev c) (newRequest ev c h False))) \<Longrightarrow>
   isl (fst (GenerateReply ev c h))"
  by (auto simp add: GenerateReply_def Let_def split: prod.splits sum.splits list.splits)

lemma StreamReply_error:
  "isl (fst (doChatStreamRequestWithFallback ev c (newRequest ev c h True))) \<Longrightarrow>
   isl (result (StreamReply ev c h oc oe))"
  by (auto simp add: StreamReply_def Let_def split: prod.splits sum.splits list.splits)

subsection \<open>The escalation bound\<close>

text \<open>
  Claim C4, as amended. Whatever the transport answers, a logical call, buffered or
  streaming, sends one of the six lists of requests of \<open>escalations\<close>: at most three
  requests, each after the first obtained from its predecessor by one downgrade, with at
  most one temperature downgrade and at most one response-format downgrade. When every
  answer of the transport is an HTTP 400 whose body carries the temperature marker and none
  of the structured-output markers, the call sends at most two requests and returns an
  error.
\<close>

theorem escalation_bound:
  "snd (GenerateReply ev c h) \<in> set (escalations (newRequest ev c h False)) \<and>
   requests (StreamReply ev c h oc oe) \<in> set (escalations (newRequest ev c h True)) \<and>
   length (snd (GenerateReply ev c h)) \<le> 3 \<and>
   length (requests (StreamReply ev c h oc oe)) \<le> 3 \<and>
   (temperatureErrorsOnly ev \<longrightarrow>
      length (snd (GenerateReply ev c h)) \<le> 2 \<and> isl (fst (GenerateReply ev c h)) \<and>
      length (requests (StreamReply ev c h oc oe)) \<le> 2 \<and>
      isl (result (StreamReply ev c h oc oe)))"
proof -
  have g: "snd (GenerateReply ev c h) \<in> set (escalations (newRequest ev c h False))"
    by (simp add: GenerateReply_sent chain_sent_transport)
  have s: "requests (StreamReply ev c h oc oe) \<in> set (escalations (newRequest ev c h True))"
    by (simp add: StreamReply_requests doChatStreamRequestWithFallback_def chain_sent_transport)
  have t: "length (snd (GenerateReply ev c h)) \<le> 2 \<and> isl (fst (GenerateReply ev c h)) \<and>
      length (requests (StreamReply ev c h oc oe)) \<le> 2 \<and>
      isl (result (StreamReply ev c h oc oe))" if "temperatureErrorsOnly ev"
  proof -
    from chain_temperature_only_transport(1) [OF that, of c "newRequest ev c h False"]
    have 1: "length (snd (GenerateReply ev c h)) \<le> 2 \<and> isl (fst (GenerateReply ev c h))"
      by (simp add: GenerateReply_sent GenerateReply_error)
    from chain_temperature_only_transport(2) [OF that, of c "newRequest ev c h True"]
    have 2: "length (requests (StreamReply ev c h oc oe)) \<le> 2 \<and>
      isl (result (StreamReply ev c h oc oe))"
      by (simp add: StreamReply_requests StreamReply_error doChatStreamRequestWithFallback_def)
    from 1 2 show ?thesis by simp
  qed
  from g s t escalations_length [OF g] escalations_length [OF s] show ?thesis by blast
qed


theorem escalation_bound_witness:
  "temperatureErrorsOnly (env0 (str ''Unsupported value: temperature'')) \<and>
   length (requests (StreamReply (env0 (str ''Unsupported value: temperature'')) client0 []
     None None)) \<le> 2 \<and>
   isl (result (StreamReply (env0 (str ''Unsupported value: temperature'')) client0 []
     None None)) \<and>
   map Temperature (requests (StreamReply (env0 (str ''Unsupported value: temperature''))
     client0 [] None None)) = [1, 0]"
proof -
  have h: "temperatureErrorsOnly (env0 (str ''Unsupported value: temperature''))"
    by (simp add: temperatureErrorsOnly_def env0_def ReadAll_def shouldRetryWithoutTemperature_def
        shouldFallbackToJSONMode_def) code_simp
  have v: "map Temperature (requests (StreamReply (env0 (str ''Unsupported value: temperature''))
     client0 [] None None)) = [1, 0]"
    by code_simp
  from escalation_bound [of "env0 (str ''Unsupported value: temperature'')" client0 "[]" None None]
    h v
  show ?thesis by blast
qed

text \<open>
  The bound of two attempts does not hold for every temperature error: a body that carries
  the temperature marker and also the words \<^verbatim>\<open>not supported\<close> passes both tests, and the
  call sends three requests, the third one in JSON mode.
\<close>

theorem escalation_two_attempts_counterexample:
  "shouldRetryWithoutTemperature (\<lambda>r. r) 400
     (str ''Unsupported parameter: temperature is not supported with this model.'') \<and>
   length (requests (StreamReply
     (env0 (str ''Unsupported parameter: temperature is not supported with this model.''))
     client0 [] None None)) = 3 \<and>
   length (snd (GenerateReply
     (env0 (str ''Unsupported parameter: temperature is not supported with this model.''))
     client0 [])) = 3 \<and>
   map (Type \<circ> ResponseFormat) (requests (StreamReply
     (env0 (str ''Unsupported parameter: temperature is not supported with this model.''))
     client0 [] None None)) = [str ''json_schema'', str ''json_schema'', str ''json_object'']"
  by code_simp

subsection \<open>The messages sent\<close>

lemma historyMessages_filter:
  "historyMessages h =
   map (\<lambda>m. \<lparr>Role = dbRole m, Content = dbContent m, Refusal = []\<rparr>)
     (filter (\<lambda>m. dbRole m = str ''user'' \<or> dbRole m = str ''assistant'') h)"
  by (induction h) simp_all

lemma escalations_Messages:
  "tr \<in> set (escalations r) \<Longrightarrow> rq \<in> set tr \<Longrightarrow> Messages rq = Messages r"
  by (auto simp add: escalations_def withoutTemperature_def inJSONMode_def)

text \<open>
  Claim C9. Both \<^verbatim>\<open>GenerateReply\<close> and \<^verbatim>\<open>StreamReply\<close> build a request whose message list
  is one message of role \<^verbatim>\<open>system\<close>, then the history entries of role \<^verbatim>\<open>user\<close> or
  \<^verbatim>\<open>assistant\<close>, in their order, with their role and content; entries of any other role
  are left out. With an API key and a request that can be built, that request is the first
  one sent, and every request sent after it, the retries, carries the same message list.
\<close>

theorem history_role_filtering:
  "(\<forall>rq \<in> set (snd (GenerateReply ev c h)) \<union> set (requests (StreamReply ev c h oc oe)).
      Messages rq =
        systemMessage ev c #
        map (\<lambda>m. \<lparr>Role = dbRole m, Content = dbContent m, Refusal = []\<rparr>)
          (filter (\<lambda>m. dbRole m = str ''user'' \<or> dbRole m = str ''assistant'') h)) \<and>
   Role (systemMessage ev c) = str ''system'' \<and>
   (apiKey c \<noteq> [] \<and> buildRequest ev c (newRequest ev c h False) \<longrightarrow>
      take 1 (snd (GenerateReply ev c h)) = [newRequest ev c h False]) \<and>
   (apiKey c \<noteq> [] \<and> buildRequest ev c (newRequest ev c h True) \<longrightarrow>
      take 1 (requests (StreamReply ev c h oc oe)) = [newRequest ev c h True]) \<and>
   Messages (newRequest ev c h False) =
     systemMessage ev c #
     map (\<lambda>m. \<lparr>Role = dbRole m, Content = dbContent m, Refusal = []\<rparr>)
       (filter (\<lambda>m. dbRole m = str ''user'' \<or> dbRole m = str ''assistant'') h) \<and>
   Messages (newRequest ev c h True) =
     systemMessage ev c #
     map (\<lambda>m. \<lparr>Role = dbRole m, Content = dbContent m, Refusal = []\<rparr>)
       (filter (\<lambda>m. dbRole m = str ''user'' \<or> dbRole m = str ''assistant'') h)"
proof -
  have g: "snd (GenerateReply ev c h) \<in> set (escalations (newRequest ev c h False))"
    by (simp add: GenerateReply_sent chain_sent_transport)
  have s: "requests (StreamReply ev c h oc oe) \<in> set (escalations (newRequest ev c h True))"
    by (simp add: StreamReply_requests doChatStreamRequestWithFallback_def chain_sent_transport)
  have m: "Messages (newRequest ev c h b) =
        systemMessage ev c #
        map (\<lambda>m. \<lparr>Role = dbRole m, Content = dbContent m, Refusal = []\<rparr>)
          (filter (\<lambda>m. dbRole m = str ''user'' \<or> dbRole m = str ''assistant'') h)" for b
    by (simp add: newRequest_def buildMessages_def historyMessages_filter)
  have r: "Role (systemMessage ev c) = str ''system''"
    by (simp add: systemMessage_def Let_def)
  have fg: "take 1 (snd (GenerateReply ev c h)) = [newRequest ev c h False]"
    if "apiKey c \<noteq> []" and "buildRequest ev c (newRequest ev c h False)"
    using chain_first_sent(1) [OF that] by (simp add: GenerateReply_sent)
  have fs: "take 1 (requests (StreamReply ev c h oc oe)) = [newRequest ev c h True]"
    if "apiKey c \<noteq> []" and "buildRequest ev c (newRequest ev c h True)"
    using chain_first_sent(2) [OF that]
    by (simp add: StreamReply_requests doChatStreamRequestWithFallback_def)
  have all: "\<forall>rq \<in> set (snd (GenerateReply ev c h)) \<union> set (requests (StreamReply ev c h oc oe)).
      Messages rq =
        systemMessage ev c #
        map (\<lambda>m. \<lparr>Role = dbRole m, Content = dbContent m, Refusal = []\<rparr>)
          (filter (\<lambda>m. dbRole m = str ''user'' \<or> dbRole m = str ''assistant'') h)"
    using escalations_Messages [OF g] escalations_Messages [OF s] m by auto
  from all r fg fs m [of False] m [of True] show ?thesis by blast
qed

theorem history_role_filtering_witness:
  "apiKey client0 \<noteq> [] \<and>
   buildRequest (env0 (str ''bad request'')) client0
     (newRequest (env0 (str ''bad request'')) client0
       [\<lparr>dbRole = str ''user'', dbContent = str ''hi''\<rparr>,
        \<lparr>dbRole = str ''tool'', dbContent = str ''call''\<rparr>,
        \<lparr>dbRole = str ''assistant'', dbContent = str ''hello''\<rparr>] True) \<and>
   take 1 (requests (StreamReply (env0 (str ''bad request'')) client0
       [\<lparr>dbRole = str ''user'', dbContent = str ''hi''\<rparr>,
        \<lparr>dbRole = str ''tool'', dbContent = str ''call''\<rparr>,
        \<lparr>dbRole = str ''assistant'', dbContent = str ''hello''\<rparr>] None None)) =
     [newRequest (env0 (str ''bad request'')) client0
       [\<lparr>dbRole = str ''user'', dbContent = str ''hi''\<rparr>,
        \<lparr>dbRole = str ''tool'', dbContent = str ''call''\<rparr>,
        \<lparr>dbRole = str ''assistant'', dbContent = str ''hello''\<rparr>] True] \<and>
   newRequest (env0 (str ''bad request'')) client0
       [\<lparr>dbRole = str ''user'', dbContent = str ''hi''\<rparr>,
        \<lparr>dbRole = str ''tool'', dbContent = str ''call''\<rparr>,
        \<lparr>dbRole = str ''assistant'', dbContent = str ''hello''\<rparr>] False
     \<in> set (snd (GenerateReply (env0 (str ''bad request'')) client0
       [\<lparr>dbRole = str ''user'', dbContent = str ''hi''\<rparr>,
        \<lparr>dbRole = str ''tool'', dbContent = str ''call''\<rparr>,
        \<lparr>dbRole = str ''assistant'', dbContent = str ''hello''\<rparr>])) \<and>
   map Role (Messages (newRequest (env0 (str ''bad request'')) client0
       [\<lparr>dbRole = str ''user'', dbContent = str ''hi''\<rparr>,
        \<lparr>dbRole = str ''tool'', dbContent = str ''call''\<rparr>,
        \<lparr>dbRole = str ''assistant'', dbContent = str ''hello''\<rparr>] True)) =
     [str ''system'', str ''user'', str ''assistant'']"
proof -
  let ?ev = "env0 (str ''bad request'')"
  let ?h = "[\<lparr>dbRole = str ''user'', dbContent = str ''hi''\<rparr>,
        \<lparr>dbRole = str ''tool'', dbContent = str ''call''\<rparr>,
        \<lparr>dbRole = str ''assistant'', dbContent = str ''hello''\<rparr>]"
  let ?expected = "systemMessage ?ev client0 #
        map (\<lambda>m. \<lparr>Role = dbRole m, Content = dbContent m, Refusal = []\<rparr>)
          (filter (\<lambda>m. dbRole m = str ''user'' \<or> dbRole m = str ''assistant'') ?h)"
  have k: "apiKey client0 \<noteq> []" by code_simp
  have b: "buildRequest ?ev client0 (newRequest ?ev client0 ?h True)" by code_simp
  have m: "newRequest ?ev client0 ?h False \<in> set (snd (GenerateReply ?ev client0 ?h))"
    by code_simp
  note T = history_role_filtering [of ?ev client0 ?h None None]
  from T k b
  have first: "take 1 (requests (StreamReply ?ev client0 ?h None None)) =
      [newRequest ?ev client0 ?h True]"
    by blast
  from T have e: "Messages (newRequest ?ev client0 ?h True) = ?expected" by blast
  have v: "map Role ?expected = [str ''system'', str ''user'', str ''assistant'']"
    by code_simp
  from e v have r: "map Role (Messages (newRequest ?ev client0 ?h True)) =
      [str ''system'', str ''user'', str ''assistant'']"
    by (simp only:)
  from k b first m r show ?thesis by blast
qed

subsection \<open>Graceful degradation of the buffered mode\<close>

text \<open>
  Claim C8, as amended. When the negotiation of \<^verbatim>\<open>GenerateReply\<close> returns a response with
  at least one choice, the content of the first choice is not empty once its surrounding
  white space is trimmed, and parsing the trimmed content fails or gives an empty reply,
  then the call succeeds: its text is the trimmed content and its emotion is the fallback
  emotion.
\<close>

theorem buffered_degradation:
  assumes "fallbackChain ev (doChatRequest ev c) (newRequest ev c h False) = (Inr (m # ms), sent)"
    and "TrimSpace (Content m) \<noteq> []"
    and "\<not> snd (parseAIJSON ev (TrimSpace (Content m))) \<or>
         aiReply (fst (parseAIJSON ev (TrimSpace (Content m)))) = []"
  shows "GenerateReply ev c h =
           (Inr \<lparr>Text = TrimSpace (Content m),
                 Emotion = fallbackEmotion (lowerTable ev) (emotions c)\<rparr>, sent)"
  using assms by (auto simp add: GenerateReply_def Let_def split: prod.splits)

theorem buffered_degradation_witness:
  "TrimSpace (str '' Hello there. '') \<noteq> [] \<and>
   \<not> snd (parseAIJSON (bufferedEnv (str '' Hello there. '') [] (\<lambda>_. None))
           (TrimSpace (str '' Hello there. ''))) \<and>
   fst (GenerateReply (bufferedEnv (str '' Hello there. '') [] (\<lambda>_. None)) client0 []) =
     Inr \<lparr>Text = str ''Hello there.'', Emotion = str ''neutral''\<rparr>"
proof -
  let ?ev = "bufferedEnv (str '' Hello there. '') [] (\<lambda>_. None)"
  let ?m = "\<lparr>Role = str ''assistant'', Content = str '' Hello there. '', Refusal = []\<rparr>"
  have 1: "fallbackChain ?ev (doChatRequest ?ev client0) (newRequest ?ev client0 [] False) =
           (Inr (?m # []), [newRequest ?ev client0 [] False])"
    by code_simp
  have 2: "TrimSpace (Content ?m) \<noteq> []" by code_simp
  have 3: "\<not> snd (parseAIJSON ?ev (TrimSpace (Content ?m))) \<or>
         aiReply (fst (parseAIJSON ?ev (TrimSpace (Content ?m)))) = []"
    by code_simp
  have 4: "TrimSpace (Content ?m) = str ''Hello there.''" by code_simp
  have 5: "fallbackEmotion (lowerTable ?ev) (emotions client0) = str ''neutral''" by code_simp
  have 6: "\<not> snd (parseAIJSON ?ev (TrimSpace (str '' Hello there. '')))" by code_simp
  from buffered_degradation [OF 1 2 3] have
    "GenerateReply ?ev client0 [] =
       (Inr \<lparr>Text = TrimSpace (Content ?m),
             Emotion = fallbackEmotion (lowerTable ?ev) (emotions client0)\<rparr>,
        [newRequest ?ev client0 [] False])" .
  with 4 5 have "fst (GenerateReply ?ev client0 []) =
     Inr \<lparr>Text = str ''Hello there.'', Emotion = str ''neutral''\<rparr>" by simp
  with 2 6 show ?thesis by simp
qed

text \<open>
  Without the trimming the claim fails twice over. A content of one space is not empty and
  does not parse, and the call returns the error for an empty content; and a content with
  surrounding white space is returned without it, not verbatim.
\<close>

theorem buffered_degradation_counterexample:
  "str '' '' \<noteq> [] \<and>
   \<not> snd (parseAIJSON (bufferedEnv (str '' '') [] (\<lambda>_. None)) (str '' '')) \<and>
   fst (GenerateReply (bufferedEnv (str '' '') [] (\<lambda>_. None)) client0 []) = Inl EmptyContent \<and>
   \<not> snd (parseAIJSON (bufferedEnv (str '' Hello there. '') [] (\<lambda>_. None))
           (str '' Hello there. '')) \<and>
   fst (GenerateReply (bufferedEnv (str '' Hello there. '') [] (\<lambda>_. None)) client0 []) =
     Inr \<lparr>Text = str ''Hello there.'', Emotion = str ''neutral''\<rparr> \<and>
   str ''Hello there.'' \<noteq> str '' Hello there. ''"
  by code_simp

subsection \<open>The read loop\<close>

lemma dropWhile_rev_head:
  assumes "xs = [] \<or> \<not> P (hd xs)"
  shows "dropWhile P (rev (dropWhile P (rev xs))) = rev (dropWhile P (rev xs))"
proof (cases "rev (dropWhile P (rev xs))")
  case Nil
  show ?thesis unfolding Nil by simp
next
  case (Cons u us)
  have "xs = rev (dropWhile P (rev xs)) @ rev (takeWhile P (rev xs))"
    by (metis rev_append rev_rev_ident takeWhile_dropWhile_id)
  with Cons have "xs = (u # us) @ rev (takeWhile P (rev xs))" by simp
  then have "hd xs = u" and "xs \<noteq> []"
    by (metis append_Cons list.sel(1), metis Nil_is_append_conv list.distinct(1))
  with assms have "\<not> P u" by simp
  with Cons show ?thesis by simp
qed

lemma TrimSpace_idem [simp]: "TrimSpace (TrimSpace s) = TrimSpace s"
proof -
  let ?t = "dropWhile isSpace s"
  have "?t = [] \<or> \<not> isSpace (hd ?t)" by (metis hd_dropWhile)
  from dropWhile_rev_head [of "dropWhile isSpace s" isSpace, OF this]
  show ?thesis by (simp add: TrimSpace_def)
qed

lemma TrimSpace_Nil [simp]: "TrimSpace [] = []"
  by (simp add: TrimSpace_def)

lemma Feed_delivered:
  assumes "snd (Feed p t) = None" and "onReply p \<noteq> None" and "delivered_ok p"
    and "replyChunk p = []"
  shows "delivered_ok (fst (Feed p t)) \<and> replyChunk (fst (Feed p t)) = [] \<and>
         onReply (fst (Feed p t)) = onReply p"
proof -
  from Feed_success [OF assms(1)]
  have F: "Feed p t = (flushP (foldl stepP p t), None)"
    and fl: "snd (flushReply (foldl stepP p t)) = None" by simp_all
  from assms(3) have "delivered_ok (foldl stepP p t)" by (rule delivered_foldl)
  with fl assms(2) have "delivered_ok (flushP (foldl stepP p t)) \<and>
     replyChunk (flushP (foldl stepP p t)) = []"
    by (intro delivered_flushP) simp_all
  with F show ?thesis by simp
qed

lemma feedChoices_inv:
  "feedChoices st cs = (st', None) \<Longrightarrow> streamInv st \<Longrightarrow> streamInv st'"
proof (induction cs arbitrary: st)
  case Nil
  then show ?case by simp
next
  case (Cons ch cs)
  obtain content refusal where ch: "ch = (content, refusal)" by (cases ch)
  show ?case
  proof (cases "content = []")
    case True
    let ?st1 = "if refusal \<noteq> [] then st\<lparr>refusalBuilder := refusalBuilder st @ refusal\<rparr> else st"
    from Cons.prems(1) ch True have r: "feedChoices ?st1 cs = (st', None)" by simp
    from Cons.prems(2) have "streamInv ?st1" by (simp add: streamInv_def)
    from Cons.IH [OF r this] show ?thesis .
  next
    case False
    obtain p' e where F: "Feed (parser st) content = (p', e)" by (cases "Feed (parser st) content")
    have e: "e = None"
    proof (cases e)
      case None
      then show ?thesis .
    next
      case (Some x)
      with Cons.prems(1) ch False F show ?thesis by simp
    qed
    let ?st0 = "st\<lparr>rawBuilder := rawBuilder st @ content, parser := p'\<rparr>"
    let ?st1 = "if refusal \<noteq> [] then ?st0\<lparr>refusalBuilder := refusalBuilder ?st0 @ refusal\<rparr> else ?st0"
    from Cons.prems(1) ch False F e have r: "feedChoices ?st1 cs = (st', None)" by simp
    from F e have "snd (Feed (parser st) content) = None" by simp
    from Feed_delivered [OF this] Cons.prems(2) F have "streamInv ?st1"
      by (simp add: streamInv_def)
    from Cons.IH [OF r this] show ?thesis .
  qed
qed

lemma streamLoop_inv:
  "streamLoop ev st ls fin = (st', None) \<Longrightarrow> streamInv st \<Longrightarrow> streamInv st'"
proof (induction ev st ls fin rule: streamLoop.induct)
  case (1 ev st)
  then show ?case by simp
next
  case (2 ev st)
  then show ?case by simp
next
  case (3 ev st l ls fin)
  let ?line = "TrimSpace l"
  let ?data = "TrimSpace (TrimPrefix ?line (str ''data:''))"
  show ?case
  proof (cases "?line = []")
    case True
    with "3.prems" have r: "streamLoop ev st ls fin = (st', None)" by (simp add: Let_def)
    from "3.IH"(1) [OF refl True r "3.prems"(2)] show ?thesis .
  next
    case ne: False
    show ?thesis
    proof (cases "HasPrefix ?line (str ''data:'')")
      case False
      with ne "3.prems" have r: "streamLoop ev st ls fin = (st', None)" by (simp add: Let_def)
      from "3.IH"(2) [OF refl ne False r "3.prems"(2)] show ?thesis .
    next
      case hp: True
      show ?thesis
      proof (cases "?data = str ''[DONE]''")
        case True
        with ne hp "3.prems" show ?thesis by (simp add: Let_def)
      next
        case nd: False
        show ?thesis
        proof (cases "unmarshalChunk ev ?data")
          case None
          with ne hp nd "3.prems" have r: "streamLoop ev st ls fin = (st', None)"
            by (simp add: Let_def)
          from hp have hp': "\<not> \<not> HasPrefix ?line (str ''data:'')" by simp
          from "3.IH"(3) [OF refl ne hp' refl nd None r "3.prems"(2)] show ?thesis .
        next
          case (Some choices)
          obtain st1 e where fc: "feedChoices st choices = (st1, e)"
            by (cases "feedChoices st choices")
          have e: "e = None"
          proof (cases e)
            case None
            then show ?thesis .
          next
            case (Some x)
            with ne hp nd \<open>unmarshalChunk ev ?data = Some choices\<close> fc "3.prems"(1)
            show ?thesis by (simp add: Let_def)
          qed
          with ne hp nd Some fc "3.prems"(1) have r: "streamLoop ev st1 ls fin = (st', None)"
            by (simp add: Let_def)
          from fc e "3.prems"(2) have i: "streamInv st1" by (auto dest: feedChoices_inv)
          from hp have hp': "\<not> \<not> HasPrefix ?line (str ''data:'')" by simp
          from fc e have fc': "(st1, None) = feedChoices st choices" by simp
          from "3.IH"(4) [OF refl ne hp' refl nd Some fc' refl r i] show ?thesis .
        qed
      qed
    qed
  qed
qed


lemma StreamReply_finish:
  assumes "fst (doChatStreamRequestWithFallback ev c (newRequest ev c h True)) = Inr body"
    and "snd (runStream ev oc oe body) = None"
  shows "StreamReply ev c h oc oe =
         finishStream ev c (fst (runStream ev oc oe body))
           (snd (doChatStreamRequestWithFallback ev c (newRequest ev c h True)))"
proof -
  obtain sent where d: "doChatStreamRequestWithFallback ev c (newRequest ev c h True) = (Inr body, sent)"
    using assms(1) by (cases "doChatStreamRequestWithFallback ev c (newRequest ev c h True)") simp
  obtain st where r: "runStream ev oc oe body = (st, None)"
    using assms(2) by (cases "runStream ev oc oe body") simp
  from r have "streamLoop ev \<lparr>parser = newJSONStreamParser oc oe, rawBuilder = [],
      refusalBuilder = []\<rparr> (rlines body) (rend body) = (st, None)"
    by (simp add: runStream_def)
  with d r show ?thesis by (simp add: StreamReply_def Let_def)
qed

lemma finishStream_result_cases:
  "result (finishStream ev c st sent) = Inl Refused \<or>
   result (finishStream ev c st sent) = Inl EmptyContent \<or>
   (\<exists>r. result (finishStream ev c st sent) = Inr r)"
  by (simp add: finishStream_def Let_def split: prod.splits option.splits)

lemma StreamReply_success:
  assumes "result (StreamReply ev c h oc oe) = Inr r"
  obtains body where
    "fst (doChatStreamRequestWithFallback ev c (newRequest ev c h True)) = Inr body"
    and "snd (runStream ev oc oe body) = None"
proof -
  obtain res sent where d: "doChatStreamRequestWithFallback ev c (newRequest ev c h True) = (res, sent)"
    by (cases "doChatStreamRequestWithFallback ev c (newRequest ev c h True)")
  show thesis
  proof (cases res)
    case (Inl e)
    with d assms show ?thesis by (simp add: StreamReply_def Let_def)
  next
    case (Inr body)
    obtain st e where r: "streamLoop ev \<lparr>parser = newJSONStreamParser oc oe, rawBuilder = [],
      refusalBuilder = []\<rparr> (rlines body) (rend body) = (st, e)"
      by (cases "streamLoop ev \<lparr>parser = newJSONStreamParser oc oe, rawBuilder = [],
      refusalBuilder = []\<rparr> (rlines body) (rend body)")
    show ?thesis
    proof (cases e)
      case None
      with d Inr r that show ?thesis by (simp add: runStream_def)
    next
      case (Some x)
      with d Inr r assms show ?thesis by (simp add: StreamReply_def Let_def)
    qed
  qed
qed

lemma SetEmotion_reply [simp]:
  "replyBuilder (SetEmotion p e) = replyBuilder p"
  "replyCalls (SetEmotion p e) = replyCalls p"
  by (simp_all add: SetEmotion_def Let_def)

lemma finishStream_finalParser:
  "finalParser (finishStream ev c st sent) = parser st \<or>
   (\<exists>e. finalParser (finishStream ev c st sent) = SetEmotion (parser st) e)"
  by (auto simp add: finishStream_def Let_def split: prod.splits option.splits)

lemma finishStream_reply [simp]:
  "replyBuilder (finalParser (finishStream ev c st sent)) = replyBuilder (parser st)"
  "replyCalls (finalParser (finishStream ev c st sent)) = replyCalls (parser st)"
  using finishStream_finalParser [of ev c st sent] by auto

lemma finishStream_rawStream [simp]:
  "rawStream (finishStream ev c st sent) = rawBuilder st"
  by (auto simp add: finishStream_def Let_def split: prod.splits option.splits)

lemma finishStream_captured:
  "TrimSpace (replyBuilder (parser st)) \<noteq> [] \<Longrightarrow>
   finishStream ev c st sent =
     \<lparr>result = Inr \<lparr>Text = TrimSpace (replyBuilder (parser st)),
                     Emotion = finalEmotion (lowerTable ev) (emotion (parser st)) (emotions c)\<rparr>,
      finalParser = parser st, rawStream = rawBuilder st, reparse = None, requests = sent\<rparr>"
  by (simp add: finishStream_def Let_def)

lemma runStream_inv:
  assumes "snd (runStream ev (Some f) oe body) = None"
  shows "concat (replyCalls (parser (fst (runStream ev (Some f) oe body)))) =
         replyBuilder (parser (fst (runStream ev (Some f) oe body)))"
proof -
  let ?st0 = "\<lparr>parser = newJSONStreamParser (Some f) oe, rawBuilder = [], refusalBuilder = []\<rparr>"
  obtain st where r: "streamLoop ev ?st0 (rlines body) (rend body) = (st, None)"
    using assms by (cases "runStream ev (Some f) oe body") (simp add: runStream_def)
  have "streamInv ?st0"
    by (simp add: streamInv_def delivered_ok_def newJSONStreamParser_def)
  from streamLoop_inv [OF r this] have "streamInv st" .
  then have "concat (replyCalls (parser st)) = replyBuilder (parser st)"
    by (metis append_Nil2 delivered_ok_def streamInv_def)
  with r show ?thesis by (simp add: runStream_def)
qed

subsection \<open>The final text of a streamed reply\<close>

text \<open>
  Claim C10. When \<^verbatim>\<open>StreamReply\<close>, called with a pass-through callback, succeeds and the
  extractor has captured reply text (the captured reply is not blank), the text of the
  returned reply is the concatenation of the arguments of the pass-through callback with
  leading and trailing white space removed.
\<close>

theorem final_text_trimmed:
  assumes "result (StreamReply ev c h (Some f) oe) = Inr r"
    and "TrimSpace (replyBuilder (finalParser (StreamReply ev c h (Some f) oe))) \<noteq> []"
  shows "Text r = TrimSpace (concat (replyCalls (finalParser (StreamReply ev c h (Some f) oe))))"
proof -
  from assms(1) obtain body where
    b: "fst (doChatStreamRequestWithFallback ev c (newRequest ev c h True)) = Inr body"
    and l: "snd (runStream ev (Some f) oe body) = None"
    by (rule StreamReply_success)
  let ?st = "fst (runStream ev (Some f) oe body)"
  let ?sent = "snd (doChatStreamRequestWithFallback ev c (newRequest ev c h True))"
  have S: "StreamReply ev c h (Some f) oe = finishStream ev c ?st ?sent"
    by (rule StreamReply_finish [OF b l])
  with assms(2) have cap: "TrimSpace (replyBuilder (parser ?st)) \<noteq> []" by simp
  from finishStream_captured [OF cap, of ev c ?sent] S assms(1)
  have "Text r = TrimSpace (replyBuilder (parser ?st))" by auto
  also have "replyBuilder (parser ?st) = concat (replyCalls (parser ?st))"
    by (rule runStream_inv [OF l, symmetric])
  also have "replyCalls (parser ?st) = replyCalls (finalParser (StreamReply ev c h (Some f) oe))"
    by (simp add: S)
  finally show ?thesis .
qed

theorem final_text_trimmed_witness:
  \<open>result (StreamReply
      (streamEnv [str ''{"emotion":"happy","reply":" He'', str ''llo! "}''] (\<lambda>_. None))
      client0 [] (Some (\<lambda>_. None)) (Some (\<lambda>_. None))) =
     Inr \<lparr>Text = str ''Hello!'', Emotion = str ''happy''\<rparr> \<and>
   TrimSpace (replyBuilder (finalParser (StreamReply
      (streamEnv [str ''{"emotion":"happy","reply":" He'', str ''llo! "}''] (\<lambda>_. None))
      client0 [] (Some (\<lambda>_. None)) (Some (\<lambda>_. None))))) \<noteq> [] \<and>
   Text \<lparr>Text = str ''Hello!'', Emotion = str ''happy''\<rparr> =
     TrimSpace (concat (replyCalls (finalParser (StreamReply
      (streamEnv [str ''{"emotion":"happy","reply":" He'', str ''llo! "}''] (\<lambda>_. None))
      client0 [] (Some (\<lambda>_. None)) (Some (\<lambda>_. None)))))) \<and>
   replyCalls (finalParser (StreamReply
      (streamEnv [str ''{"emotion":"happy","reply":" He'', str ''llo! "}''] (\<lambda>_. None))
      client0 [] (Some (\<lambda>_. None)) (Some (\<lambda>_. None)))) = [str '' He'', str ''llo! '']\<close>
proof -
  let ?X = \<open>StreamReply
      (streamEnv [str ''{"emotion":"happy","reply":" He'', str ''llo! "}''] (\<lambda>_. None))
      client0 [] (Some (\<lambda>_. None)) (Some (\<lambda>_. None))\<close>
  have 1: "result ?X = Inr \<lparr>Text = str ''Hello!'', Emotion = str ''happy''\<rparr>" by code_simp
  have 2: "TrimSpace (replyBuilder (finalParser ?X)) \<noteq> []" by code_simp
  have 3: "replyCalls (finalParser ?X) = [str '' He'', str ''llo! '']" by code_simp
  from final_text_trimmed [OF 1 2] 1 2 3 show ?thesis by blast
qed

subsection \<open>The fallback to the raw stream\<close>

text \<open>
  Claim C6, as amended. Let the negotiation return a response body and the read loop end
  without error. Then \<^verbatim>\<open>StreamReply\<close> parses the trimmed concatenation of the raw stream
  with \<^verbatim>\<open>parseAIJSON\<close> exactly when the extractor has captured no reply text (its reply is
  blank) and the raw stream is not blank, whether or not the extractor has finalized the
  emotion; and the call fails exactly when the extractor has captured no reply text and the
  raw stream is blank, or does not parse, or parses to a reply that is blank.
\<close>

theorem raw_stream_fallback:
  assumes "fst (doChatStreamRequestWithFallback ev c (newRequest ev c h True)) = Inr body"
    and "snd (runStream ev oc oe body) = None"
  shows "reparse (StreamReply ev c h oc oe) =
           (if TrimSpace (replyBuilder (parser (fst (runStream ev oc oe body)))) = [] \<and>
               TrimSpace (rawBuilder (fst (runStream ev oc oe body))) \<noteq> []
            then Some (parseAIJSON ev (TrimSpace (rawBuilder (fst (runStream ev oc oe body)))))
            else None) \<and>
         isl (result (StreamReply ev c h oc oe)) =
           (TrimSpace (replyBuilder (parser (fst (runStream ev oc oe body)))) = [] \<and>
            (TrimSpace (rawBuilder (fst (runStream ev oc oe body))) = [] \<or>
             \<not> snd (parseAIJSON ev (TrimSpace (rawBuilder (fst (runStream ev oc oe body))))) \<or>
             TrimSpace (aiReply (fst (parseAIJSON ev
               (TrimSpace (rawBuilder (fst (runStream ev oc oe body))))))) = []))"
proof -
  let ?st = "fst (runStream ev oc oe body)"
  let ?sent = "snd (doChatStreamRequestWithFallback ev c (newRequest ev c h True))"
  have S: "StreamReply ev c h oc oe = finishStream ev c ?st ?sent"
    by (rule StreamReply_finish [OF assms])
  obtain parsed ok where pa: "parseAIJSON ev (TrimSpace (rawBuilder ?st)) = (parsed, ok)"
    by (cases "parseAIJSON ev (TrimSpace (rawBuilder ?st))")
  show ?thesis
    unfolding S by (auto simp add: finishStream_def Let_def pa)
qed


theorem raw_stream_fallback_witness:
  \<open>fst (doChatStreamRequestWithFallback
      (streamEnv [str ''{"Reply":"hi",'', str ''"Emotion":"happy"}'']
        (map_of [(str ''{"Reply":"hi","Emotion":"happy"}'',
                  \<lparr>aiReply = str ''hi'', aiEmotion = str ''happy''\<rparr>)]))
      client0
      (newRequest (streamEnv [str ''{"Reply":"hi",'', str ''"Emotion":"happy"}'']
        (map_of [(str ''{"Reply":"hi","Emotion":"happy"}'',
                  \<lparr>aiReply = str ''hi'', aiEmotion = str ''happy''\<rparr>)])) client0 [] True)) =
     Inr (streamBody [str ''{"Reply":"hi",'', str ''"Emotion":"happy"}'']) \<and>
   snd (runStream
      (streamEnv [str ''{"Reply":"hi",'', str ''"Emotion":"happy"}'']
        (map_of [(str ''{"Reply":"hi","Emotion":"happy"}'',
                  \<lparr>aiReply = str ''hi'', aiEmotion = str ''happy''\<rparr>)]))
      (Some (\<lambda>_. None)) (Some (\<lambda>_. None))
      (streamBody [str ''{"Reply":"hi",'', str ''"Emotion":"happy"}''])) = None \<and>
   reparse (StreamReply
      (streamEnv [str ''{"Reply":"hi",'', str ''"Emotion":"happy"}'']
        (map_of [(str ''{"Reply":"hi","Emotion":"happy"}'',
                  \<lparr>aiReply = str ''hi'', aiEmotion = str ''happy''\<rparr>)]))
      client0 [] (Some (\<lambda>_. None)) (Some (\<lambda>_. None))) =
     Some (\<lparr>aiReply = str ''hi'', aiEmotion = str ''happy''\<rparr>, True) \<and>
   \<not> isl (result (StreamReply
      (streamEnv [str ''{"Reply":"hi",'', str ''"Emotion":"happy"}'']
        (map_of [(str ''{"Reply":"hi","Emotion":"happy"}'',
                  \<lparr>aiReply = str ''hi'', aiEmotion = str ''happy''\<rparr>)]))
      client0 [] (Some (\<lambda>_. None)) (Some (\<lambda>_. None))))\<close>
proof -
  let ?ev = \<open>streamEnv [str ''{"Reply":"hi",'', str ''"Emotion":"happy"}'']
        (map_of [(str ''{"Reply":"hi","Emotion":"happy"}'',
                  \<lparr>aiReply = str ''hi'', aiEmotion = str ''happy''\<rparr>)])\<close>
  let ?body = \<open>streamBody [str ''{"Reply":"hi",'', str ''"Emotion":"happy"}'']\<close>
  let ?st = "fst (runStream ?ev (Some (\<lambda>_. None)) (Some (\<lambda>_. None)) ?body)"
  have 1: "fst (doChatStreamRequestWithFallback ?ev client0 (newRequest ?ev client0 [] True)) =
           Inr ?body"
    by code_simp
  have 2: "snd (runStream ?ev (Some (\<lambda>_. None)) (Some (\<lambda>_. None)) ?body) = None"
    by code_simp
  have 3: "TrimSpace (replyBuilder (parser ?st)) = []" by code_simp
  have 4: \<open>TrimSpace (rawBuilder ?st) = str ''{"Reply":"hi","Emotion":"happy"}''\<close> by code_simp
  have 5: \<open>parseAIJSON ?ev (str ''{"Reply":"hi","Emotion":"happy"}'') =
           (\<lparr>aiReply = str ''hi'', aiEmotion = str ''happy''\<rparr>, True)\<close>
    by code_simp
  have 6: \<open>str ''{"Reply":"hi","Emotion":"happy"}'' \<noteq> []\<close> \<open>TrimSpace (str ''hi'') \<noteq> []\<close>
    by code_simp+
  from raw_stream_fallback [OF 1 2] 3 4 5 6
  have "reparse (StreamReply ?ev client0 [] (Some (\<lambda>_. None)) (Some (\<lambda>_. None))) =
          Some (\<lparr>aiReply = str ''hi'', aiEmotion = str ''happy''\<rparr>, True) \<and>
        \<not> isl (result (StreamReply ?ev client0 [] (Some (\<lambda>_. None)) (Some (\<lambda>_. None))))"
    by simp
  with 1 2 show ?thesis by blast
qed

text \<open>
  With the emotion as the trigger the claim fails: on the stream below the extractor never
  finalizes an emotion, and yet the raw stream is not parsed again, since the reply was
  captured; the call succeeds with the fallback emotion.
\<close>

theorem raw_stream_fallback_counterexample:
  \<open>emotionCalls (finalParser (StreamReply
      (streamEnv [str ''{"reply":"hi"}'']
        (map_of [(str ''{"reply":"hi"}'', \<lparr>aiReply = str ''hi'', aiEmotion = []\<rparr>)]))
      client0 [] (Some (\<lambda>_. None)) (Some (\<lambda>_. None)))) = [] \<and>
   emotion (finalParser (StreamReply
      (streamEnv [str ''{"reply":"hi"}'']
        (map_of [(str ''{"reply":"hi"}'', \<lparr>aiReply = str ''hi'', aiEmotion = []\<rparr>)]))
      client0 [] (Some (\<lambda>_. None)) (Some (\<lambda>_. None)))) = [] \<and>
   rawStream (StreamReply
      (streamEnv [str ''{"reply":"hi"}'']
        (map_of [(str ''{"reply":"hi"}'', \<lparr>aiReply = str ''hi'', aiEmotion = []\<rparr>)]))
      client0 [] (Some (\<lambda>_. None)) (Some (\<lambda>_. None))) = str ''{"reply":"hi"}'' \<and>
   reparse (StreamReply
      (streamEnv [str ''{"reply":"hi"}'']
        (map_of [(str ''{"reply":"hi"}'', \<lparr>aiReply = str ''hi'', aiEmotion = []\<rparr>)]))
      client0 [] (Some (\<lambda>_. None)) (Some (\<lambda>_. None))) = None \<and>
   result (StreamReply
      (streamEnv [str ''{"reply":"hi"}'']
        (map_of [(str ''{"reply":"hi"}'', \<lparr>aiReply = str ''hi'', aiEmotion = []\<rparr>)]))
      client0 [] (Some (\<lambda>_. None)) (Some (\<lambda>_. None))) =
     Inr \<lparr>Text = str ''hi'', Emotion = str ''neutral''\<rparr>\<close>
  by code_simp

subsection \<open>Decoding the pass-through field\<close>

lemma restore_fields:
  "unicodeLeft p = 0 \<Longrightarrow> unicodeBuf p = [] \<Longrightarrow> \<not> escape p \<Longrightarrow>
   p\<lparr>escape := False, unicodeLeft := 0, unicodeBuf := []\<rparr> = p"
  "\<not> escape p \<Longrightarrow> p\<lparr>escape := False\<rparr> = p"
  by (cases p, simp)+

lemma handleRune_strRun:
  "inStr m p \<Longrightarrow> m \<noteq> ModeNone \<Longrightarrow> strRun m p (handleRune p r) [written r]"
  by (cases m) (auto simp add: strRun_def inStr_def handleRune_def WriteRune_def written_def)

lemma strRun_trans:
  "strRun m p q rs \<Longrightarrow> strRun m q q' rs' \<Longrightarrow> strRun m p q' (rs @ rs')"
  by (auto simp add: strRun_def)

lemma strRun_refl: "inStr m p \<Longrightarrow> strRun m p p []"
  by (simp add: strRun_def)

lemma step_plain_char:
  assumes "inStr m p" and "r \<noteq> 34" and "r \<noteq> 92"
  shows "foldl stepP p [r] = handleRune p r"
  using assms by (simp add: inStr_def stepP_plain)

lemma step_esc_char:
  assumes "inStr m p"
    and "c = 34 \<or> c = 92 \<or> c = 47 \<or> c = 98 \<or> c = 102 \<or> c = 110 \<or> c = 114 \<or> c = 116"
  shows "foldl stepP p [92, c] = handleRune p (charValue (Esc c))"
proof -
  from assms(1) have 1: "stepP p 92 = p\<lparr>escape := True\<rparr>"
    by (simp add: inStr_def stepP_backslash)
  from assms(1) have 2: "stepP (p\<lparr>escape := True\<rparr>) c =
      handleRune (p\<lparr>escape := False\<rparr>) (charValue (Esc c))"
    using assms(2) by (auto simp add: inStr_def stepP_escape Let_def charValue_def)
  from assms(1) have 3: "p\<lparr>escape := False\<rparr> = p" by (simp add: inStr_def restore_fields)
  from 1 2 3 show ?thesis by simp
qed


lemma isHex_facts:
  assumes "isHex c"
  shows "validRune c" "runeLen c = 1" "hexDigit c = Some (hexVal c)" "c \<noteq> 43" "c \<noteq> 45"
  using assms by (auto simp add: isHex_def validRune_def runeLen_def hexDigit_def hexVal_def)

lemma decodeUnicode_hex:
  assumes "isHex a" "isHex b" "isHex c" "isHex d"
  shows "decodeUnicode [a, b, c, d] = (charValue (UEsc a b c d), True)"
  using assms
  by (simp add: decodeUnicode_def len_def ParseIntHex_def isHex_facts charValue_def)

lemma step_uesc_char:
  assumes "inStr m p" and "isHex a" "isHex b" "isHex c" "isHex d"
  shows "foldl stepP p [92, 117, a, b, c, d] = handleRune p (charValue (UEsc a b c d))"
proof -
  from assms(1) have f: "unicodeLeft p = 0" "unicodeBuf p = []" "inString p" "\<not> escape p"
    by (simp_all add: inStr_def)
  let ?s1 = "p\<lparr>escape := True\<rparr>"
  let ?s2 = "p\<lparr>escape := False, unicodeLeft := 4\<rparr>"
  let ?s3 = "p\<lparr>escape := False, unicodeLeft := 3, unicodeBuf := [a]\<rparr>"
  let ?s4 = "p\<lparr>escape := False, unicodeLeft := 2, unicodeBuf := [a, b]\<rparr>"
  let ?s5 = "p\<lparr>escape := False, unicodeLeft := 1, unicodeBuf := [a, b, c]\<rparr>"
  have 1: "stepP p 92 = ?s1" using f by (simp add: stepP_backslash)
  have 2: "stepP ?s1 117 = ?s2" using f by (simp add: stepP_escape)
  have 3: "stepP ?s2 a = ?s3"
    using f assms(2) by (simp add: stepP_unicode Let_def WriteRune_def isHex_facts)
  have 4: "stepP ?s3 b = ?s4"
    using f assms(3) by (simp add: stepP_unicode Let_def WriteRune_def isHex_facts)
  have 5: "stepP ?s4 c = ?s5"
    using f assms(4) by (simp add: stepP_unicode Let_def WriteRune_def isHex_facts)
  have 6: "stepP ?s5 d =
      handleRune (p\<lparr>escape := False, unicodeLeft := 0, unicodeBuf := []\<rparr>) (charValue (UEsc a b c d))"
    using f assms(5) decodeUnicode_hex [OF assms(2-5)]
    by (simp add: stepP_unicode Let_def WriteRune_def isHex_facts)
  have 7: "p\<lparr>escape := False, unicodeLeft := 0, unicodeBuf := []\<rparr> = p"
    using f by (simp add: restore_fields)
  from 1 2 3 4 5 6 7 show ?thesis by simp
qed

lemma char_run:
  assumes "inStr m p" and "wfChar x"
  shows "foldl stepP p (renderChar x) = handleRune p (charValue x)"
proof (cases x)
  case (Plain r)
  with assms show ?thesis
    using step_plain_char [of m p r] by (simp add: renderChar_def wfChar_def charValue_def)
next
  case (Esc c)
  with assms show ?thesis
    using step_esc_char [of m p c] by (simp add: renderChar_def wfChar_def)
next
  case (UEsc a b c d)
  with assms show ?thesis
    using step_uesc_char [of m p a b c d] by (simp add: renderChar_def wfChar_def)
qed

lemma string_content_run:
  "inStr m p \<Longrightarrow> m \<noteq> ModeNone \<Longrightarrow> list_all wfChar s \<Longrightarrow>
   strRun m p (foldl stepP p (concat (map renderChar s))) (deliveredString s)"
proof (induction s arbitrary: p)
  case Nil
  then show ?case by (simp add: strRun_refl deliveredString_def)
next
  case (Cons x s)
  let ?q = "handleRune p (charValue x)"
  from Cons.prems have st: "foldl stepP p (renderChar x) = ?q" by (simp add: char_run)
  from Cons.prems have r1: "strRun m p ?q [written (charValue x)]"
    by (simp add: handleRune_strRun)
  then have "inStr m ?q" by (simp add: strRun_def)
  from Cons.IH [OF this Cons.prems(2)] Cons.prems(3)
  have r2: "strRun m ?q (foldl stepP ?q (concat (map renderChar s))) (deliveredString s)"
    by simp
  from strRun_trans [OF r1 r2] st show ?case by (simp add: deliveredString_def)
qed

lemma key_run:
  assumes "outside p" and "\<not> expectValue p" and "list_all wfChar k"
  shows "outside (foldl stepP p (renderString k)) \<and>
         expectValue (foldl stepP p (renderString k)) \<and>
         currentKeyName (foldl stepP p (renderString k)) = deliveredString k \<and>
         replyBuilder (foldl stepP p (renderString k)) = replyBuilder p"
proof -
  let ?p1 = "p\<lparr>inString := True, mode := ModeKey\<rparr>"
  let ?q = "foldl stepP ?p1 (concat (map renderChar k))"
  from assms have 1: "stepP p 34 = ?p1" by (simp add: outside_def stepP_outside)
  from assms(1) have i: "inStr ModeKey ?p1" by (simp add: outside_def inStr_def)
  from string_content_run [OF i _ assms(3)] have r: "strRun ModeKey ?p1 ?q (deliveredString k)"
    by simp
  then have q: "inStr ModeKey ?q" "currentKey ?q = deliveredString k"
    "replyBuilder ?q = replyBuilder p"
    using assms(1) by (simp_all add: strRun_def outside_def)
  from q(1) have 2: "stepP ?q 34 =
      ?q\<lparr>inString := False, currentKeyName := currentKey ?q, currentKey := [],
         expectValue := True, mode := ModeNone\<rparr>"
    by (simp add: inStr_def stepP_close)
  have "foldl stepP p (renderString k) = stepP ?q 34"
    by (simp add: renderString_def 1)
  with 2 q show ?thesis by (simp add: outside_def inStr_def)
qed

lemma value_string_run:
  assumes "outside p" and "expectValue p" and "list_all wfChar s"
  shows "outside (foldl stepP p (renderString s)) \<and>
         \<not> expectValue (foldl stepP p (renderString s)) \<and>
         replyBuilder (foldl stepP p (renderString s)) =
           replyBuilder p @ (if currentKeyName p = str ''reply'' then deliveredString s else [])"
proof -
  let ?p1 = "p\<lparr>inString := True, mode := ModeValue\<rparr>"
  let ?q = "foldl stepP ?p1 (concat (map renderChar s))"
  from assms have 1: "stepP p 34 = ?p1" by (simp add: outside_def stepP_outside)
  from assms(1) have i: "inStr ModeValue ?p1" by (simp add: outside_def inStr_def)
  from string_content_run [OF i _ assms(3)] have r: "strRun ModeValue ?p1 ?q (deliveredString s)"
    by simp
  then have q: "inStr ModeValue ?q" "currentKey ?q = []"
    "replyBuilder ?q =
       replyBuilder p @ (if currentKeyName p = str ''reply'' then deliveredString s else [])"
    using assms(1) by (simp_all add: strRun_def outside_def)
  have e: "foldl stepP p (renderString s) = stepP ?q 34"
    by (simp add: renderString_def 1)
  from q(1) have c: "unicodeLeft ?q = 0" "unicodeBuf ?q = []" "inString ?q" "\<not> escape ?q"
    "mode ?q = ModeValue" "neverFails (onEmotion ?q)"
    by (simp_all add: inStr_def)
  have "outside (stepP ?q 34) \<and> \<not> expectValue (stepP ?q 34) \<and>
        replyBuilder (stepP ?q 34) = replyBuilder ?q"
    using c q(2)
    by (auto simp add: stepP_close outside_def neverFails_def split: option.splits)
  with e q(3) show ?thesis by simp
qed

lemma skip_run:
  "outside p \<Longrightarrow> list_all (\<lambda>c. c \<noteq> 34 \<and> c \<noteq> 44) w \<Longrightarrow> foldl stepP p w = p"
  by (induction w) (simp_all add: outside_def stepP_outside)

lemma isWs_skip: "list_all isWs w \<Longrightarrow> list_all (\<lambda>c. c \<noteq> 34 \<and> c \<noteq> 44) w"
  by (induction w) (auto simp add: isWs_def)

lemma scalar_skip: "list_all scalarChar w \<Longrightarrow> list_all (\<lambda>c. c \<noteq> 34 \<and> c \<noteq> 44) w"
  by (induction w) (auto simp add: scalarChar_def)

lemma comma_run:
  "outside p \<Longrightarrow> outside (stepP p 44) \<and> \<not> expectValue (stepP p 44) \<and>
     replyBuilder (stepP p 44) = replyBuilder p"
  by (simp add: outside_def stepP_outside)


lemma member_run:
  assumes "outside p" and "\<not> expectValue p" and "wfMember m"
  shows "outside (foldl stepP p (renderMember m)) \<and>
         replyBuilder (foldl stepP p (renderMember m)) = replyBuilder p @ contribution m"
proof -
  from assms(3) have wf: "list_all isWs (lead m)" "list_all wfChar (mkey m)"
    "list_all isWs (preColon m)" "list_all isWs (postColon m)" "wfValue (mval m)"
    "list_all isWs (trail m)"
    by (simp_all add: wfMember_def)
  let ?q1 = "foldl stepP p (renderString (mkey m))"
  from key_run [OF assms(1,2) wf(2)]
  have q1: "outside ?q1" "expectValue ?q1" "currentKeyName ?q1 = deliveredString (mkey m)"
    "replyBuilder ?q1 = replyBuilder p" by simp_all
  have colon: "foldl stepP ?q1 (preColon m @ [58] @ postColon m) = ?q1"
    using q1(1) wf(3,4) by (intro skip_run) (simp_all add: isWs_skip)
  let ?q2 = "foldl stepP ?q1 (renderValue (mval m))"
  have q2: "outside ?q2 \<and> replyBuilder ?q2 = replyBuilder p @ contribution m"
  proof (cases "mval m")
    case (VString s)
    with wf(5) have "list_all wfChar s" by (simp add: wfValue_def)
    from value_string_run [OF q1(1,2) this] q1(3,4) VString show ?thesis
      by (simp add: renderValue_def contribution_def)
  next
    case (VOther t)
    with wf(5) have "list_all scalarChar t" by (simp add: wfValue_def)
    with q1(1) have "foldl stepP ?q1 t = ?q1" by (intro skip_run) (simp_all add: scalar_skip)
    with VOther q1 show ?thesis by (simp add: renderValue_def contribution_def)
  qed
  have "foldl stepP p (renderMember m) =
        foldl stepP (foldl stepP (foldl stepP (foldl stepP (foldl stepP p (lead m))
          (renderString (mkey m))) (preColon m @ [58] @ postColon m)) (renderValue (mval m)))
          (trail m)"
    by (simp add: renderMember_def)
  also have "foldl stepP p (lead m) = p"
    using assms(1) wf(1) by (intro skip_run) (simp_all add: isWs_skip)
  also note colon
  also have "foldl stepP ?q2 (trail m) = ?q2"
    using q2 wf(6) by (intro skip_run) (simp_all add: isWs_skip)
  finally show ?thesis using q2 by simp
qed

lemma members_run:
  "outside p \<Longrightarrow> \<not> expectValue p \<Longrightarrow> list_all wfMember ms \<Longrightarrow>
   outside (foldl stepP p (renderMembers ms)) \<and>
   replyBuilder (foldl stepP p (renderMembers ms)) = replyBuilder p @ concat (map contribution ms)"
proof (induction ms arbitrary: p rule: renderMembers.induct)
  case 1
  then show ?case by simp
next
  case (2 m)
  then show ?case using member_run [of p m] by simp
next
  case (3 m n ms)
  let ?q = "foldl stepP p (renderMember m)"
  from "3.prems" member_run [of p m]
  have q: "outside ?q" "replyBuilder ?q = replyBuilder p @ contribution m" by simp_all
  from comma_run [OF q(1)]
  have c: "outside (stepP ?q 44)" "\<not> expectValue (stepP ?q 44)"
    "replyBuilder (stepP ?q 44) = replyBuilder ?q" by simp_all
  from "3.prems"(3) have "list_all wfMember (n # ms)" by simp
  from "3.IH" [OF c(1,2) this] c(3) q(2) show ?case by simp
qed

lemma fresh_outside:
  "neverFails onE \<Longrightarrow>
   outside (newJSONStreamParser onR onE) \<and> \<not> expectValue (newJSONStreamParser onR onE) \<and>
   replyBuilder (newJSONStreamParser onR onE) = []"
  by (simp add: outside_def newJSONStreamParser_def)

lemma object_run:
  assumes "wfObject obj" and "neverFails onE"
  shows "replyBuilder (foldl stepP (newJSONStreamParser onR onE) (renderObject obj)) =
         concat (map contribution (members obj))"
proof -
  let ?p = "newJSONStreamParser onR onE"
  from assms(1) have wf: "list_all isWs (before obj)" "list_all isWs (inner obj)"
    "list_all wfMember (members obj)" "list_all isWs (after obj)"
    by (simp_all add: wfObject_def)
  from fresh_outside [OF assms(2), of onR]
  have fr: "outside ?p" "\<not> expectValue ?p" "replyBuilder ?p = []" by simp_all
  have 1: "foldl stepP ?p (before obj @ [123]) = ?p"
    using fr(1) wf(1) by (intro skip_run) (simp_all add: isWs_skip)
  let ?body = "if members obj = [] then inner obj else renderMembers (members obj)"
  let ?q = "foldl stepP ?p ?body"
  have q: "outside ?q \<and> replyBuilder ?q = concat (map contribution (members obj))"
  proof (cases "members obj = []")
    case True
    have "foldl stepP ?p (inner obj) = ?p"
      using fr(1) wf(2) by (intro skip_run) (simp_all add: isWs_skip)
    with True fr show ?thesis by simp
  next
    case False
    with members_run [OF fr(1,2) wf(3)] fr(3) show ?thesis by simp
  qed
  have 2: "foldl stepP ?q ([125] @ after obj) = ?q"
    using q wf(4) by (intro skip_run) (simp_all add: isWs_skip)
  have "foldl stepP ?p (renderObject obj) =
        foldl stepP (foldl stepP (foldl stepP ?p (before obj @ [123])) ?body) ([125] @ after obj)"
    by (simp add: renderObject_def)
  with 1 2 q show ?thesis by simp
qed

lemma jsonStringValue_plain:
  "plainEscapes s \<Longrightarrow> jsonStringValue s = deliveredString s"
proof (induction s rule: jsonStringValue.induct)
  case (2 a b c d e f g h rest)
  from "2.prems" have v: "validRune (charValue (UEsc a b c d))" and
    r: "plainEscapes (UEsc e f g h # rest)"
    by (simp_all add: plainEscapes_def)
  from v have ns: "\<not> (0xD800 \<le> charValue (UEsc a b c d) \<and> charValue (UEsc a b c d) \<le> 0xDBFF)"
    unfolding validRune_def by arith
  from "2.IH"(2) r ns show ?case by (auto simp add: deliveredString_def)
qed (simp_all add: deliveredString_def plainEscapes_def)


lemma contribution_replyFields:
  "list_all (\<lambda>m. plainEscapes (mkey m) \<and>
                 (case mval m of VString s \<Rightarrow> plainEscapes s | VOther t \<Rightarrow> True)) ms \<Longrightarrow>
   concat (map contribution ms) =
   concat (map (\<lambda>v. case v of VString s \<Rightarrow> jsonStringValue s | VOther t \<Rightarrow> [])
     (concat (map (\<lambda>m. if jsonStringValue (mkey m) = str ''reply'' then [mval m] else []) ms)))"
  by (induction ms) (auto simp add: contribution_def jsonStringValue_plain split: jvalue.splits)

text \<open>
  What the extractor hands to the pass-through callback on any chunking of a well-formed
  flat JSON object text, when the callback is installed and no callback returns an error:
  the values of the string-valued members whose key decodes to \<^verbatim>\<open>reply\<close>, decoded character
  by character. When no escape of the text denotes a surrogate and the text has exactly one
  member named \<^verbatim>\<open>reply\<close>, a string, that is the fully decoded value of the field.
\<close>

lemma passthrough_decode:
  assumes "wfObject obj" and "concat chunks = renderObject obj"
    and "neverFails (Some f)" and "neverFails onE"
  shows "snd (feedAll (newJSONStreamParser (Some f) onE) chunks) = None \<and>
         concat (replyCalls (fst (feedAll (newJSONStreamParser (Some f) onE) chunks))) =
           concat (map contribution (members obj)) \<and>
         (noSurrogates obj \<longrightarrow>
            (\<forall>s. replyFields obj = [VString s] \<longrightarrow>
               concat (replyCalls (fst (feedAll (newJSONStreamParser (Some f) onE) chunks))) =
                 jsonStringValue s))"
proof -
  let ?p = "newJSONStreamParser (Some f) onE"
  have cb: "onReply ?p = Some f" "onEmotion ?p = onE" "replyChunk ?p = []" "delivered_ok ?p"
    by (simp_all add: newJSONStreamParser_def delivered_ok_def)
  from assms(3,4) cb have ok: "snd (feedAll ?p chunks) = None"
    by (simp add: feedAll_neverFails)
  from cb have ne: "onReply ?p \<noteq> None" by simp
  from feedAll_replyCalls [OF ok ne cb(4) cb(3)] assms(2)
  have "concat (replyCalls (fst (feedAll ?p chunks))) =
        replyBuilder (foldl stepP ?p (renderObject obj))" by simp
  also have "\<dots> = concat (map contribution (members obj))"
    by (rule object_run [OF assms(1,4)])
  finally have d: "concat (replyCalls (fst (feedAll ?p chunks))) =
        concat (map contribution (members obj))" .
  have "concat (map contribution (members obj)) = jsonStringValue s"
    if "noSurrogates obj" and "replyFields obj = [VString s]" for s
    using contribution_replyFields [of "members obj"] that
    by (simp add: noSurrogates_def replyFields_def)
  with ok d show ?thesis by simp
qed

text \<open>
  An example: a reply with an accented letter written as an escape and with a newline
  escape, split in the middle of the first escape.
\<close>

lemma passthrough_decode_example:
  \<open>wfObject (objectOf [plainMember ''emotion'' (VString (map Plain (str ''happy''))),
      plainMember ''reply'' (VString (map Plain (str ''caf'') @ [UEsc 48 48 101 57, Esc 110]))]) \<and>
   concat [str ''{"emotion":"happy","reply":"caf'' @ [92] @ str ''u00'', str ''e9'' @ [92] @ str ''n"}''] =
     renderObject (objectOf [plainMember ''emotion'' (VString (map Plain (str ''happy''))),
      plainMember ''reply'' (VString (map Plain (str ''caf'') @ [UEsc 48 48 101 57, Esc 110]))]) \<and>
   neverFails (Some (\<lambda>_. None)) \<and>
   noSurrogates (objectOf [plainMember ''emotion'' (VString (map Plain (str ''happy''))),
      plainMember ''reply'' (VString (map Plain (str ''caf'') @ [UEsc 48 48 101 57, Esc 110]))]) \<and>
   replyFields (objectOf [plainMember ''emotion'' (VString (map Plain (str ''happy''))),
      plainMember ''reply'' (VString (map Plain (str ''caf'') @ [UEsc 48 48 101 57, Esc 110]))]) =
     [VString (map Plain (str ''caf'') @ [UEsc 48 48 101 57, Esc 110])] \<and>
   concat (replyCalls (fst (feedAll (newJSONStreamParser (Some (\<lambda>_. None)) (Some (\<lambda>_. None)))
     [str ''{"emotion":"happy","reply":"caf'' @ [92] @ str ''u00'', str ''e9'' @ [92] @ str ''n"}'']))) =
     [99, 97, 102, 233, 10]\<close>
proof -
  let ?s = "map Plain (str ''caf'') @ [UEsc 48 48 101 57, Esc 110]"
  let ?obj = "objectOf [plainMember ''emotion'' (VString (map Plain (str ''happy''))),
      plainMember ''reply'' (VString ?s)]"
  let ?chunks = \<open>[str ''{"emotion":"happy","reply":"caf'' @ [92] @ str ''u00'',
      str ''e9'' @ [92] @ str ''n"}'']\<close>
  have 1: "wfObject ?obj" by code_simp
  have 2: "concat ?chunks = renderObject ?obj" by code_simp
  have 3: "neverFails (Some (\<lambda>_. None))" by (simp add: neverFails_def)
  have 4: "noSurrogates ?obj" by code_simp
  have 5: "replyFields ?obj = [VString ?s]" by code_simp
  have 6: "jsonStringValue ?s = [99, 97, 102, 233, 10]" by code_simp
  from passthrough_decode [OF 1 2 3 3] 4 5
  have "concat (replyCalls (fst (feedAll (newJSONStreamParser (Some (\<lambda>_. None))
      (Some (\<lambda>_. None))) ?chunks))) = jsonStringValue ?s"
    by blast
  with 6
  have "concat (replyCalls (fst (feedAll (newJSONStreamParser (Some (\<lambda>_. None))
      (Some (\<lambda>_. None))) ?chunks))) = [99, 97, 102, 233, 10]"
    by (simp only:)
  with 1 2 3 4 5 show ?thesis by blast
qed

text \<open>
  Claim C2. The arguments of the pass-through callback, concatenated, are to be the fully
  decoded value of the \<^verbatim>\<open>reply\<close> field, every \<^verbatim>\<open>\u\<close> escape resolved to its Unicode
  scalar. JSON writes a code point above U+FFFF as a pair of escapes, a high and a low
  surrogate; the text below is well formed and its \<^verbatim>\<open>reply\<close> field has the value U+1F600.
  The extractor decodes each escape by itself and writes each half as U+FFFD: the callback
  receives two replacement characters, and so does the caller of \<^verbatim>\<open>StreamReply\<close> as the
  text of the reply.
\<close>

theorem surrogate_pair_not_combined:
  \<open>wfObject (objectOf [plainMember ''reply'' (VString [UEsc 100 56 51 100, UEsc 100 101 48 48])]) \<and>
   renderObject (objectOf [plainMember ''reply''
       (VString [UEsc 100 56 51 100, UEsc 100 101 48 48])]) =
     str ''{"reply":"'' @ [92] @ str ''ud83d'' @ [92] @ str ''ude00"}'' \<and>
   replyFields (objectOf [plainMember ''reply'' (VString [UEsc 100 56 51 100, UEsc 100 101 48 48])]) =
     [VString [UEsc 100 56 51 100, UEsc 100 101 48 48]] \<and>
   jsonStringValue [UEsc 100 56 51 100, UEsc 100 101 48 48] = [0x1F600] \<and>
   concat (replyCalls (fst (Feed (newJSONStreamParser (Some (\<lambda>_. None)) (Some (\<lambda>_. None)))
     (str ''{"reply":"'' @ [92] @ str ''ud83d'' @ [92] @ str ''ude00"}'')))) = [0xFFFD, 0xFFFD] \<and>
   result (StreamReply
     (streamEnv [str ''{"reply":"'' @ [92] @ str ''ud83d'' @ [92] @ str ''ude00"}''] (\<lambda>_. None))
     client0 [] (Some (\<lambda>_. None)) (Some (\<lambda>_. None))) =
     Inr \<lparr>Text = [0xFFFD, 0xFFFD], Emotion = str ''neutral''\<rparr>\<close>
  by code_simp

end
